theory Spec2Isabelle
  imports Main "HOL-Library.Word"
begin

section \<open>Bytes, machine integers and build configuration\<close>

text \<open>
  The message buffer is a \<open>std::vector<char>\<close>: a list of 8-bit values. The header
  include/ipc.hpp is not part of the sources at hand, so what it fixes at build time is a
  field of \<open>config\<close>: whether fields carry a tag byte (\<open>__MSG_USE_TAGS__\<close>), the width in
  bytes of \<open>__MSG_LENGTH_TYPE__\<close>, and the value of \<open>get_max_size()\<close>.
\<close>

type_synonym byte = "8 word"

record config =
  use_tags :: bool
  len_size :: nat
  max_size :: nat

text \<open>\<open>size_t\<close> arithmetic on an LP64 platform wraps at 64 bits.\<close>

definition size_t :: "nat \<Rightarrow> nat" where
  "size_t n = n mod 2 ^ 64"

text \<open>The cast \<open>(__MSG_LENGTH_TYPE__)n\<close> keeps the low \<open>8 * len_size\<close> bits.\<close>

definition len_t :: "config \<Rightarrow> nat \<Rightarrow> nat" where
  "len_t cfg n = n mod 2 ^ (8 * len_size cfg)"

text \<open>
  An object of \<open>__MSG_LENGTH_TYPE__\<close> stored in the buffer, least significant byte first
  (the byte order of the platforms the AF_UNIX branch is built for).
\<close>

fun le_bytes :: "nat \<Rightarrow> nat \<Rightarrow> byte list" where
  "le_bytes 0 v = []"
| "le_bytes (Suc n) v = of_nat (v mod 256) # le_bytes n (v div 256)"

primrec le_value :: "byte list \<Rightarrow> nat" where
  "le_value [] = 0"
| "le_value (b # bs) = unat b + 256 * le_value bs"

text \<open>\<open>*(__MSG_LENGTH_TYPE__* )m_buffer.data()\<close>, read and written.\<close>

definition header :: "config \<Rightarrow> byte list \<Rightarrow> nat" where
  "header cfg buf = le_value (take (len_size cfg) buf)"

definition set_header :: "config \<Rightarrow> nat \<Rightarrow> byte list \<Rightarrow> byte list" where
  "set_header cfg v buf = le_bytes (len_size cfg) v @ drop (len_size cfg) buf"

section \<open>Type tags\<close>

datatype type_tag = u32 | i32 | u64 | i64 | fp64 | str | chr | remote_ptr | blob

text \<open>
  Modelled from the spec: the declaration of \<open>enum class type_tag\<close> is in the absent
  header; the enumerators are numbered in the order in which the data model lists them,
  which is also the order of the cases of \<open>to_string\<close>.
\<close>

fun tag_code :: "type_tag \<Rightarrow> byte" where
  "tag_code u32 = 0"
| "tag_code i32 = 1"
| "tag_code u64 = 2"
| "tag_code i64 = 3"
| "tag_code fp64 = 4"
| "tag_code str = 5"
| "tag_code chr = 6"
| "tag_code remote_ptr = 7"
| "tag_code blob = 8"

text \<open>\<open>message::to_string\<close>, applied to a byte cast to \<open>type_tag\<close>.\<close>

definition to_string :: "byte \<Rightarrow> string" where
  "to_string t =
     (if t = tag_code u32 then ''u32''
      else if t = tag_code i32 then ''i32''
      else if t = tag_code u64 then ''u64''
      else if t = tag_code i64 then ''i64''
      else if t = tag_code fp64 then ''fp64''
      else if t = tag_code str then ''str''
      else if t = tag_code chr then ''chr''
      else if t = tag_code remote_ptr then ''remote_ptr''
      else if t = tag_code blob then ''blob''
      else ''unknown'')"

section \<open>Exceptions and outcomes\<close>

text \<open>
  The exception classes thrown by the code, with the values their messages carry
  (required size and limit; observed and expected tag name; the OS error code).
  The spec calls them BadState, Overflow, TooShort, TypeMismatch, MalformedContainer
  and SocketPrepareFailed.
\<close>

datatype exn =
    bad_message_exception
  | message_overflow_exception nat nat
  | message_too_short_exception nat nat
  | type_mismach_exception string string
  | container_overflow_exception
  | socket_prepare_exception int

text \<open>
  A call returns, throws, or reads memory outside the vector it indexes, which C++ leaves
  undefined; the model stops there with \<open>Undefined\<close>.
\<close>

datatype outcome = Returned | Thrown exn | Undefined

section \<open>Message state\<close>

text \<open>
  Every class of the library carries the status flag \<open>m_ok\<close>; a message adds its buffer
  (the header followed by the fields), a reader its cursor, a socket its descriptor.
\<close>

record object =
  m_ok :: bool

record message = object +
  m_buffer :: "byte list"

record in_message = message +
  m_offset :: nat \<comment> \<open>a \<open>size_t\<close>\<close>

record socket = object +
  m_socket :: int

text \<open>
  Modelled from the spec: \<open>check_status\<close> is a template of the absent header. An
  operation on an object whose flag is false fails at once, with the exception the call
  site names, which for a message is \<open>bad_message_exception\<close> (BadState).
\<close>

definition check_status :: "bool \<Rightarrow> exn option" where
  "check_status ok = (if ok then None else Some bad_message_exception)"

text \<open>
  Modelled from the spec: \<open>fail_status\<close> is a template of the absent header. A failure
  sets the flag to false and raises the exception the call site names; the model of a
  call site pairs the state \<open>fail_status\<close> leaves with that exception.
\<close>

definition fail_status :: "'a object_scheme \<Rightarrow> 'a object_scheme" where
  "fail_status st = st\<lparr>m_ok := False\<rparr>"

section \<open>Message writer (src/source/ipc.cpp)\<close>

text \<open>\<open>out_message::operator << (const std::string_view&)\<close>\<close>

definition out_message_lshift_string_view ::
  "config \<Rightarrow> byte list \<Rightarrow> message \<Rightarrow> outcome \<times> message" where
  "out_message_lshift_string_view cfg s st =
     (case check_status (m_ok st) of
        Some e \<Rightarrow> (Thrown e, st)
      | None \<Rightarrow>
          if length (m_buffer st) < len_size cfg then (Undefined, st)
          else
            let delta = (if use_tags cfg then 2 else 1);
                len = length s;
                used = header cfg (m_buffer st);
                new_used = size_t (used + len + delta)
            in if new_used > max_size cfg
               then (Thrown (message_overflow_exception new_used (max_size cfg)), fail_status st)
               else
                 let b1 = (if use_tags cfg then m_buffer st @ [tag_code str] else m_buffer st);
                     b2 = b1 @ s;
                     b3 = b2 @ [0]
                 in (Returned,
                     st\<lparr>m_buffer :=
                          set_header cfg (len_t cfg (header cfg b3 + len_t cfg new_used)) b3\<rparr>))"

text \<open>\<open>out_message::operator << (const std::pair<const uint8_t*, size_t>&)\<close>\<close>

definition out_message_lshift_blob ::
  "config \<Rightarrow> byte list \<Rightarrow> message \<Rightarrow> outcome \<times> message" where
  "out_message_lshift_blob cfg bytes st =
     (case check_status (m_ok st) of
        Some e \<Rightarrow> (Thrown e, st)
      | None \<Rightarrow>
          if length (m_buffer st) < len_size cfg then (Undefined, st)
          else
            let delta = (if use_tags cfg then 1 else 0);
                len = length bytes;
                used = header cfg (m_buffer st);
                new_used = size_t (used + len + delta)
            in if new_used > max_size cfg
               then (Thrown (message_overflow_exception new_used (max_size cfg)), fail_status st)
               else
                 let b1 = (if use_tags cfg then m_buffer st @ [tag_code blob] else m_buffer st);
                     blob_len = len_t cfg len;
                     b2 = b1 @ le_bytes (len_size cfg) blob_len;
                     b3 = b2 @ bytes
                 in (Returned,
                     st\<lparr>m_buffer :=
                          set_header cfg (len_t cfg (header cfg b3 + len_t cfg new_used)) b3\<rparr>))"

section \<open>Message reader (src/source/ipc.cpp)\<close>

text \<open>\<open>m_buffer[i]\<close>: an index outside the vector is an out-of-range read.\<close>

definition byte_at :: "byte list \<Rightarrow> nat \<Rightarrow> byte option" where
  "byte_at buf i = (if i < length buf then Some (buf ! i) else None)"

text \<open>The difference of two \<open>size_t\<close> values wraps as well.\<close>

definition size_t_sub :: "nat \<Rightarrow> nat \<Rightarrow> nat" where
  "size_t_sub a b = nat ((int a - int b) mod 2 ^ 64)"

text \<open>
  \<open>memchr(begin, 0, n)\<close> over the buffer from index \<open>begin\<close>: the bytes are read in order
  and the scan stops at the first zero byte. When none of the bytes of the vector in the
  window is zero and the window reaches past the end of the vector, the scan leaves it.
\<close>

primrec find_zero :: "byte list \<Rightarrow> nat option" where
  "find_zero [] = None"
| "find_zero (b # bs) = (if b = 0 then Some 0 else map_option Suc (find_zero bs))"

datatype scan = Found nat | NotFound | OutOfRange

definition memchr_zero :: "byte list \<Rightarrow> nat \<Rightarrow> nat \<Rightarrow> scan" where
  "memchr_zero buf begin n =
     (case find_zero (take n (drop begin buf)) of
        Some k \<Rightarrow> Found (begin + k)
      | None \<Rightarrow> if begin + n \<le> length buf then NotFound else OutOfRange)"

text \<open>
  \<open>in_message::operator >> (std::string&)\<close>. The third component is the caller's string
  after the call.
\<close>

definition in_message_rshift_string ::
  "config \<Rightarrow> in_message \<Rightarrow> byte list \<Rightarrow> outcome \<times> in_message \<times> byte list" where
  "in_message_rshift_string cfg st arg =
     (case check_status (m_ok st) of
        Some e \<Rightarrow> (Thrown e, st, arg)
      | None \<Rightarrow>
          if length (m_buffer st) < len_size cfg then (Undefined, st, [])
          else
            let size = header cfg (m_buffer st);
                delta = (if use_tags cfg then 2 else 1);
                scan_from = (\<lambda>off.
                  case memchr_zero (m_buffer st) off (size_t_sub size off) of
                    OutOfRange \<Rightarrow> (Undefined, st, [])
                  | NotFound \<Rightarrow>
                      (Thrown container_overflow_exception, st\<lparr>m_ok := False, m_offset := off\<rparr>, [])
                  | Found e \<Rightarrow>
                      let a = take (e - off) (drop off (m_buffer st))
                      in (Returned, st\<lparr>m_offset := size_t (off + length a + 1)\<rparr>, a))
            in if size < size_t (m_offset st + delta)
               then (Thrown (message_too_short_exception (size_t (m_offset st + delta)) size),
                     fail_status st, [])
               else if use_tags cfg
               then (case byte_at (m_buffer st) (m_offset st) of
                       None \<Rightarrow> (Undefined, st, [])
                     | Some tag \<Rightarrow>
                         if tag \<noteq> tag_code str
                         then (Thrown (type_mismach_exception (to_string tag) (to_string (tag_code str))),
                               fail_status st, [])
                         else scan_from (size_t (m_offset st + 1)))
               else scan_from (m_offset st))"

text \<open>
  \<open>in_message::operator >> (std::vector<uint8_t>&)\<close>. The third component is the caller's
  vector after the call.
\<close>

definition in_message_rshift_blob ::
  "config \<Rightarrow> in_message \<Rightarrow> byte list \<Rightarrow> outcome \<times> in_message \<times> byte list" where
  "in_message_rshift_blob cfg st arg =
     (case check_status (m_ok st) of
        Some e \<Rightarrow> (Thrown e, st, arg)
      | None \<Rightarrow>
          if length (m_buffer st) < len_size cfg then (Undefined, st, arg)
          else
            let size = header cfg (m_buffer st);
                delta = (if use_tags cfg then 1 + len_size cfg else len_size cfg);
                copy_from = (\<lambda>off.
                  if length (m_buffer st) < off + len_size cfg then (Undefined, st, arg)
                  else
                    let blob_len = le_value (take (len_size cfg) (drop off (m_buffer st)));
                        off2 = size_t (off + len_size cfg)
                    in if size < size_t (off2 + blob_len)
                       then (Thrown (message_too_short_exception (size_t (off2 + blob_len)) size),
                             fail_status (st\<lparr>m_offset := off2\<rparr>), arg)
                       else if blob_len \<noteq> 0
                       then if length (m_buffer st) < off2 + blob_len then (Undefined, st, arg)
                            else (Returned, st\<lparr>m_offset := size_t (off2 + blob_len)\<rparr>,
                                  take blob_len (drop off2 (m_buffer st)))
                       else (Returned, st\<lparr>m_offset := off2\<rparr>, arg))
            in if size < size_t (m_offset st + delta)
               then (Thrown (message_too_short_exception (size_t (m_offset st + delta)) size),
                     fail_status st, arg)
               else if use_tags cfg
               then (case byte_at (m_buffer st) (m_offset st) of
                       None \<Rightarrow> (Undefined, st, arg)
                     | Some tag \<Rightarrow>
                         if tag \<noteq> tag_code blob
                         then (Thrown (type_mismach_exception (to_string tag) (to_string (tag_code blob))),
                               fail_status st, arg)
                         else copy_from (size_t (m_offset st + 1)))
               else copy_from (m_offset st))"

section \<open>The status-flag variant (src/unnamed/part_000)\<close>

text \<open>
  The second copy of the writer and the reader reports a failure through \<open>m_ok\<close> alone and
  throws nothing. The writer operators of this copy do not look at the flag before they
  append.
\<close>

definition out_message_lshift_string_view_flag ::
  "config \<Rightarrow> byte list \<Rightarrow> message \<Rightarrow> outcome \<times> message" where
  "out_message_lshift_string_view_flag cfg s st =
     (if length (m_buffer st) < len_size cfg then (Undefined, st)
      else
        let delta = (if use_tags cfg then 2 else 1);
            len = length s;
            used = header cfg (m_buffer st);
            new_used = size_t (used + len + delta)
        in if new_used > max_size cfg
           then (Returned, st\<lparr>m_ok := False\<rparr>)
           else
             let b1 = (if use_tags cfg then m_buffer st @ [tag_code str] else m_buffer st);
                 b2 = b1 @ s;
                 b3 = b2 @ [0]
             in (Returned,
                 st\<lparr>m_buffer :=
                      set_header cfg (len_t cfg (header cfg b3 + len_t cfg new_used)) b3\<rparr>))"

definition out_message_lshift_blob_flag ::
  "config \<Rightarrow> byte list \<Rightarrow> message \<Rightarrow> outcome \<times> message" where
  "out_message_lshift_blob_flag cfg bytes st =
     (if length (m_buffer st) < len_size cfg then (Undefined, st)
      else
        let delta = (if use_tags cfg then 1 else 0);
            len = length bytes;
            used = header cfg (m_buffer st);
            new_used = size_t (used + len + delta)
        in if new_used > max_size cfg
           then (Returned, st\<lparr>m_ok := False\<rparr>)
           else
             let b1 = (if use_tags cfg then m_buffer st @ [tag_code blob] else m_buffer st);
                 blob_len = len_t cfg len;
                 b2 = b1 @ le_bytes (len_size cfg) blob_len;
                 b3 = b2 @ bytes
             in (Returned,
                 st\<lparr>m_buffer :=
                      set_header cfg (len_t cfg (header cfg b3 + len_t cfg new_used)) b3\<rparr>))"

definition in_message_rshift_string_flag ::
  "config \<Rightarrow> in_message \<Rightarrow> byte list \<Rightarrow> outcome \<times> in_message \<times> byte list" where
  "in_message_rshift_string_flag cfg st arg =
     (if m_ok st then
        if length (m_buffer st) < len_size cfg then (Undefined, st, [])
        else
          let size = header cfg (m_buffer st);
              delta = (if use_tags cfg then 2 else 1);
              scan_from = (\<lambda>off.
                case memchr_zero (m_buffer st) off (size_t_sub size off) of
                  OutOfRange \<Rightarrow> (Undefined, st, [])
                | NotFound \<Rightarrow> (Returned, st\<lparr>m_ok := False, m_offset := off\<rparr>, [])
                | Found e \<Rightarrow>
                    let a = take (e - off) (drop off (m_buffer st))
                    in (Returned, st\<lparr>m_offset := size_t (off + length a + 1)\<rparr>, a))
          in if size < size_t (m_offset st + delta)
             then (Returned, st\<lparr>m_ok := False\<rparr>, [])
             else if use_tags cfg
             then (case byte_at (m_buffer st) (m_offset st) of
                     None \<Rightarrow> (Undefined, st, [])
                   | Some tag \<Rightarrow>
                       if tag \<noteq> tag_code str
                       then (Returned, st\<lparr>m_ok := False\<rparr>, [])
                       else scan_from (size_t (m_offset st + 1)))
             else scan_from (m_offset st)
      else (Returned, st, arg))"

definition in_message_rshift_blob_flag ::
  "config \<Rightarrow> in_message \<Rightarrow> byte list \<Rightarrow> outcome \<times> in_message \<times> byte list" where
  "in_message_rshift_blob_flag cfg st arg =
     (if m_ok st then
        if length (m_buffer st) < len_size cfg then (Undefined, st, arg)
        else
          let size = header cfg (m_buffer st);
              delta = (if use_tags cfg then 1 + len_size cfg else len_size cfg);
              copy_from = (\<lambda>off.
                if length (m_buffer st) < off + len_size cfg then (Undefined, st, arg)
                else
                  let blob_len = le_value (take (len_size cfg) (drop off (m_buffer st)));
                      off2 = size_t (off + len_size cfg)
                  in if size < size_t (off2 + blob_len)
                     then (Returned, st\<lparr>m_ok := False, m_offset := off2\<rparr>, arg)
                     else if blob_len \<noteq> 0
                     then if length (m_buffer st) < off2 + blob_len then (Undefined, st, arg)
                          else (Returned, st\<lparr>m_offset := size_t (off2 + blob_len)\<rparr>,
                                take blob_len (drop off2 (m_buffer st)))
                     else (Returned, st\<lparr>m_offset := off2\<rparr>, arg))
          in if size < size_t (m_offset st + delta)
             then (Returned, st\<lparr>m_ok := False\<rparr>, arg)
             else if use_tags cfg
             then (case byte_at (m_buffer st) (m_offset st) of
                     None \<Rightarrow> (Undefined, st, arg)
                   | Some tag \<Rightarrow>
                       if tag \<noteq> tag_code blob
                       then (Returned, st\<lparr>m_ok := False\<rparr>, arg)
                       else copy_from (size_t (m_offset st + 1)))
             else copy_from (m_offset st)
      else (Returned, st, arg))"

section \<open>Sequences of appends and extractions\<close>

text \<open>
  A value of the two kinds whose operators are in the sources. For an extraction the
  item names the kind asked for and holds the caller's variable as it is passed in.
\<close>

datatype item = String_item "byte list" | Blob_item "byte list"

fun append_item :: "config \<Rightarrow> item \<Rightarrow> message \<Rightarrow> outcome \<times> message" where
  "append_item cfg (String_item s) st = out_message_lshift_string_view cfg s st"
| "append_item cfg (Blob_item b) st = out_message_lshift_blob cfg b st"

fun extract_item :: "config \<Rightarrow> item \<Rightarrow> in_message \<Rightarrow> outcome \<times> in_message \<times> item" where
  "extract_item cfg (String_item a) st =
     (case in_message_rshift_string cfg st a of (r, st', a') \<Rightarrow> (r, st', String_item a'))"
| "extract_item cfg (Blob_item a) st =
     (case in_message_rshift_blob cfg st a of (r, st', a') \<Rightarrow> (r, st', Blob_item a'))"

text \<open>A chain \<open>msg << a << b << ...\<close>: the first call that does not return ends it.\<close>

fun append_all :: "config \<Rightarrow> item list \<Rightarrow> message \<Rightarrow> outcome \<times> message" where
  "append_all cfg [] st = (Returned, st)"
| "append_all cfg (x # xs) st =
     (case append_item cfg x st of
        (Returned, st') \<Rightarrow> append_all cfg xs st'
      | (r, st') \<Rightarrow> (r, st'))"

fun extract_all :: "config \<Rightarrow> item list \<Rightarrow> in_message \<Rightarrow> outcome \<times> in_message \<times> item list" where
  "extract_all cfg [] st = (Returned, st, [])"
| "extract_all cfg (x # xs) st =
     (case extract_item cfg x st of
        (Returned, st', v) \<Rightarrow>
          (case extract_all cfg xs st' of (r, st'', vs) \<Rightarrow> (r, st'', v # vs))
      | (r, st', v) \<Rightarrow> (r, st', [v]))"

text \<open>
  A caller that catches every exception and goes on with the next call: the outcomes of
  all the calls, and the state after the last one.
\<close>

fun append_each :: "config \<Rightarrow> item list \<Rightarrow> message \<Rightarrow> outcome list \<times> message" where
  "append_each cfg [] st = ([], st)"
| "append_each cfg (x # xs) st =
     (case append_item cfg x st of
        (r, st') \<Rightarrow> (case append_each cfg xs st' of (rs, st'') \<Rightarrow> (r # rs, st'')))"

fun extract_each ::
  "config \<Rightarrow> item list \<Rightarrow> in_message \<Rightarrow> outcome list \<times> in_message \<times> item list" where
  "extract_each cfg [] st = ([], st, [])"
| "extract_each cfg (x # xs) st =
     (case extract_item cfg x st of
        (r, st', v) \<Rightarrow>
          (case extract_each cfg xs st' of (rs, st'', vs) \<Rightarrow> (r # rs, st'', v # vs)))"

text \<open>The same sequences with the operators of the status-flag variant.\<close>

fun append_item_flag :: "config \<Rightarrow> item \<Rightarrow> message \<Rightarrow> outcome \<times> message" where
  "append_item_flag cfg (String_item s) st = out_message_lshift_string_view_flag cfg s st"
| "append_item_flag cfg (Blob_item b) st = out_message_lshift_blob_flag cfg b st"

fun extract_item_flag :: "config \<Rightarrow> item \<Rightarrow> in_message \<Rightarrow> outcome \<times> in_message \<times> item" where
  "extract_item_flag cfg (String_item a) st =
     (case in_message_rshift_string_flag cfg st a of (r, st', a') \<Rightarrow> (r, st', String_item a'))"
| "extract_item_flag cfg (Blob_item a) st =
     (case in_message_rshift_blob_flag cfg st a of (r, st', a') \<Rightarrow> (r, st', Blob_item a'))"

fun append_each_flag :: "config \<Rightarrow> item list \<Rightarrow> message \<Rightarrow> outcome list \<times> message" where
  "append_each_flag cfg [] st = ([], st)"
| "append_each_flag cfg (x # xs) st =
     (case append_item_flag cfg x st of
        (r, st') \<Rightarrow> (case append_each_flag cfg xs st' of (rs, st'') \<Rightarrow> (r # rs, st'')))"

fun extract_each_flag ::
  "config \<Rightarrow> item list \<Rightarrow> in_message \<Rightarrow> outcome list \<times> in_message \<times> item list" where
  "extract_each_flag cfg [] st = ([], st, [])"
| "extract_each_flag cfg (x # xs) st =
     (case extract_item_flag cfg x st of
        (r, st', v) \<Rightarrow>
          (case extract_each_flag cfg xs st' of (rs, st'', vs) \<Rightarrow> (r # rs, st'', v # vs)))"

text \<open>
  Modelled from the spec: the constructor of \<open>out_message\<close> is in the absent header. A
  writer is created empty, its header holding the number of bytes appended so far, which
  is 0.
\<close>

definition out_message_empty :: "config \<Rightarrow> message" where
  "out_message_empty cfg = \<lparr>m_ok = True, m_buffer = le_bytes (len_size cfg) 0\<rparr>"

text \<open>
  Modelled from the spec: the constructor of \<open>in_message\<close> is in the absent header. A
  reader wraps a received buffer, with its cursor on the first field, behind the header.
\<close>

definition in_message_over :: "config \<Rightarrow> byte list \<Rightarrow> in_message" where
  "in_message_over cfg buf = \<lparr>m_ok = True, m_buffer = buf, m_offset = len_size cfg\<rparr>"

section \<open>Client endpoint (src/source/ipc.cpp, POSIX branch)\<close>

text \<open>
  What the operating system answers is a parameter of the constructor: the descriptor
  \<open>::socket\<close> returns and the error it leaves when that is \<open>INVALID_SOCKET\<close>, whether the
  path exists, for the \<open>k\<close>-th call of \<open>connect\<close> (counted from 0) the error code of a
  failure or \<open>None\<close> for success, and whether the descriptor can be made non-blocking.
  The calls made are recorded in the order in which they happen.
\<close>

record os_answers =
  socket_result :: int
  socket_errno :: int
  path_exists :: bool
  connect_errno :: "nat \<Rightarrow> int option"
  non_blocking_ok :: bool
  non_blocking_errno :: int

datatype call = Call_socket | Call_exists | Call_connect | Call_sleep nat | Call_set_non_blocking

definition INVALID_SOCKET :: int where "INVALID_SOCKET = - 1"
definition ENOENT :: int where "ENOENT = 2"
definition EAGAIN :: int where "EAGAIN = 11"
definition ECONNREFUSED :: int where "ECONNREFUSED = 111"
definition EINPROGRESS :: int where "EINPROGRESS = 115"

definition max_attempts_count :: nat where
  "max_attempts_count = 10"

text \<open>
  The \<open>for\<close> loop of the constructor. It ends with the error code of a failure that is not
  transient, if there was one, the value of \<open>attempt\<close>, and the calls made.
\<close>

function connect_loop :: "os_answers \<Rightarrow> nat \<Rightarrow> call list \<Rightarrow> int option \<times> nat \<times> call list" where
  "connect_loop os attempt calls =
     (if attempt < max_attempts_count then
        (case connect_errno os attempt of
           None \<Rightarrow> (None, attempt, calls @ [Call_connect])
         | Some err_code \<Rightarrow>
             if err_code = EAGAIN \<or> err_code = ECONNREFUSED \<or> err_code = EINPROGRESS
             then connect_loop os (attempt + 1) (calls @ [Call_connect, Call_sleep 1])
             else (Some err_code, attempt, calls @ [Call_connect]))
      else (None, attempt, calls))"
  by pat_completeness auto
termination
  by (relation "measure (\<lambda>(os, attempt, calls). max_attempts_count - attempt)") auto

text \<open>
  \<open>unix_client_socket::unix_client_socket(const char* path)\<close>. The base constructor
  starts from \<open>INVALID_SOCKET\<close> with \<open>m_ok = init_socket_api()\<close>, which is \<open>true\<close> off
  Windows. \<open>get_socket_error()\<close> after the loop is the error of the last \<open>connect\<close>.
\<close>

definition unix_client_socket :: "os_answers \<Rightarrow> outcome \<times> socket \<times> call list" where
  "unix_client_socket os =
     (let s = \<lparr>m_ok = True, m_socket = socket_result os\<rparr>
      in if INVALID_SOCKET = m_socket s
         then (Thrown (socket_prepare_exception (socket_errno os)), fail_status s, [Call_socket])
         else if \<not> path_exists os
         then (Thrown (socket_prepare_exception ENOENT), fail_status s, [Call_socket, Call_exists])
         else
           (case connect_loop os 0 [Call_socket, Call_exists] of
              (Some err_code, attempt, calls) \<Rightarrow>
                (Thrown (socket_prepare_exception err_code), fail_status s, calls)
            | (None, attempt, calls) \<Rightarrow>
                if attempt = max_attempts_count
                then (Thrown (socket_prepare_exception
                               (case connect_errno os (attempt - 1) of Some e \<Rightarrow> e | None \<Rightarrow> 0)),
                      fail_status s, calls)
                else if \<not> non_blocking_ok os
                then (Thrown (socket_prepare_exception (non_blocking_errno os)), fail_status s,
                      calls @ [Call_set_non_blocking])
                else (Returned, s, calls @ [Call_set_non_blocking])))"

section \<open>Auxiliary notions for the statements\<close>

text \<open>
  The length sub-field a blob extraction reads: \<open>len_size\<close> bytes at the cursor, or
  behind the tag byte when fields are tagged.
\<close>

definition blob_len_field :: "config \<Rightarrow> in_message \<Rightarrow> nat" where
  "blob_len_field cfg st =
     le_value (take (len_size cfg)
       (drop (if use_tags cfg then size_t (m_offset st + 1) else m_offset st) (m_buffer st)))"

text \<open>
  The bytes a string extraction scans: from the cursor, or from behind the tag byte when
  fields are tagged, up to the declared length.
\<close>

definition string_window :: "config \<Rightarrow> in_message \<Rightarrow> byte list" where
  "string_window cfg st =
     (let off = m_offset st + (if use_tags cfg then 1 else 0)
      in take (header cfg (m_buffer st) - off) (drop off (m_buffer st)))"

text \<open>What a caller of the status-flag variant sees where the other variant throws.\<close>

fun silenced :: "outcome \<Rightarrow> outcome" where
  "silenced (Thrown e) = Returned"
| "silenced r = r"

text \<open>
  The error codes after which the constructor sleeps and tries again, the fact that the
  first \<open>k\<close> calls of \<open>connect\<close> fail with such a code, and the calls that \<open>k\<close> rounds of
  the loop then make.
\<close>

definition transient :: "int \<Rightarrow> bool" where
  "transient e \<longleftrightarrow> e = EAGAIN \<or> e = ECONNREFUSED \<or> e = EINPROGRESS"

definition transient_until :: "os_answers \<Rightarrow> nat \<Rightarrow> bool" where
  "transient_until os k \<longleftrightarrow>
     list_all (\<lambda>j. case connect_errno os j of None \<Rightarrow> False | Some e \<Rightarrow> transient e) [0..<k]"

definition retries :: "nat \<Rightarrow> call list" where
  "retries k = concat (replicate k [Call_connect, Call_sleep 1])"

text \<open>
  The bytes an append puts behind what is already in the buffer, for the values a round
  trip is stated for: a string without a zero byte, a blob; either is an object in memory
  and as such shorter than \<open>2 ^ 63\<close> bytes.
\<close>

fun encode_item :: "config \<Rightarrow> item \<Rightarrow> byte list" where
  "encode_item cfg (String_item s) = (if use_tags cfg then [tag_code str] else []) @ s @ [0]"
| "encode_item cfg (Blob_item b) =
     (if use_tags cfg then [tag_code blob] else []) @ le_bytes (len_size cfg) (length b) @ b"

fun item_wf :: "item \<Rightarrow> bool" where
  "item_wf (String_item s) \<longleftrightarrow> 0 \<notin> set s \<and> length s < 2 ^ 63"
| "item_wf (Blob_item b) \<longleftrightarrow> length b < 2 ^ 63"

fun payload :: "item \<Rightarrow> byte list" where
  "payload (String_item s) = s"
| "payload (Blob_item b) = b"

text \<open>
  The extraction that asks for a written value, with the caller's variable holding \<open>v\<close>,
  and what the caller's variable holds afterwards.
\<close>

fun request :: "item \<Rightarrow> byte list \<Rightarrow> item" where
  "request (String_item s) v = String_item v"
| "request (Blob_item b) v = Blob_item v"

fun read_back :: "item \<Rightarrow> byte list \<Rightarrow> item" where
  "read_back (String_item s) v = String_item s"
| "read_back (Blob_item b) v = Blob_item (if b = [] then v else b)"

section \<open>Evaluation on concrete inputs\<close>

lemma le_bytes_numeral:
  "le_bytes (numeral k) v = of_nat (v mod 256) # le_bytes (pred_numeral k) (v div 256)"
  by (simp only: numeral_eq_Suc[of k] le_bytes.simps)

lemmas writer_eval =
  out_message_lshift_string_view_def out_message_lshift_blob_def out_message_empty_def
  check_status_def fail_status_def header_def set_header_def size_t_def len_t_def
  le_bytes_numeral

lemmas reader_eval =
  in_message_rshift_string_def in_message_rshift_blob_def check_status_def fail_status_def
  header_def size_t_def size_t_sub_def byte_at_def memchr_zero_def to_string_def

section \<open>The header after an append\<close>

text \<open>
  C1. After each successful append the header should hold the number of payload bytes
  appended so far, the append overwriting it with the required size. The operators add
  the required size to the header instead (\<open>+= new_used\<close>, where \<open>new_used\<close> already
  contains the old header). With tags and a 4-byte length type: from the empty writer
  whose header is 0, appending the strings "a" and "b" leaves 6 payload bytes in the
  buffer and 9 in the header; from a writer whose header starts at the 4 bytes of the
  header itself, appending "a" leaves 7 bytes in the buffer, 3 of them payload, and 11 in
  the header.
\<close>

theorem header_after_two_appends:
  "append_all \<lparr>use_tags = True, len_size = 4, max_size = 64\<rparr>
     [String_item [97], String_item [98]]
     (out_message_empty \<lparr>use_tags = True, len_size = 4, max_size = 64\<rparr>)
   = (Returned, \<lparr>m_ok = True, m_buffer = [9, 0, 0, 0, 5, 97, 0, 5, 98, 0]\<rparr>)
   \<and> header \<lparr>use_tags = True, len_size = 4, max_size = 64\<rparr> [9, 0, 0, 0, 5, 97, 0, 5, 98, 0] = 9
   \<and> length (drop 4 [9, 0, 0, 0, 5, 97, 0, 5, 98, 0 :: byte]) = 6
   \<and> append_all \<lparr>use_tags = True, len_size = 4, max_size = 64\<rparr> [String_item [97]]
       \<lparr>m_ok = True, m_buffer = [4, 0, 0, 0]\<rparr>
     = (Returned, \<lparr>m_ok = True, m_buffer = [11, 0, 0, 0, 5, 97, 0]\<rparr>)"
  by (simp add: writer_eval)

section \<open>Capacity\<close>

text \<open>
  C3. An append whose required size (used bytes, tag byte, the length sub-field of a
  blob, payload) exceeds the capacity should be rejected with the buffer unchanged.
  The blob operator leaves the length sub-field out of the size it checks. With tags and
  a 4-byte length type: on the empty writer whose header is 0, with capacity 4, a blob of
  3 bytes needs 8 bytes, is accepted and puts 8 bytes behind the header; on a writer
  whose header starts at 4, with capacity 8, the same blob needs 12 bytes, is accepted
  and leaves a buffer of 12 bytes.
\<close>

theorem blob_append_past_capacity:
  "out_message_lshift_blob \<lparr>use_tags = True, len_size = 4, max_size = 4\<rparr> [1, 2, 3]
     (out_message_empty \<lparr>use_tags = True, len_size = 4, max_size = 4\<rparr>)
   = (Returned, \<lparr>m_ok = True, m_buffer = [4, 0, 0, 0, 8, 3, 0, 0, 0, 1, 2, 3]\<rparr>)
   \<and> out_message_lshift_blob \<lparr>use_tags = True, len_size = 4, max_size = 8\<rparr> [1, 2, 3]
     \<lparr>m_ok = True, m_buffer = [4, 0, 0, 0]\<rparr>
   = (Returned, \<lparr>m_ok = True, m_buffer = [12, 0, 0, 0, 8, 3, 0, 0, 0, 1, 2, 3]\<rparr>)"
  by (simp add: writer_eval)

section \<open>Latched failure\<close>

lemma append_item_failed:
  "\<not> m_ok st \<Longrightarrow> append_item cfg x st = (Thrown bad_message_exception, st)"
  by (cases x)
     (simp_all add: out_message_lshift_string_view_def out_message_lshift_blob_def check_status_def)

lemma extract_item_failed:
  "\<not> m_ok st \<Longrightarrow> extract_item cfg x st = (Thrown bad_message_exception, st, x)"
  by (cases x)
     (simp_all add: in_message_rshift_string_def in_message_rshift_blob_def check_status_def)

lemma append_each_failed:
  "\<not> m_ok st \<Longrightarrow>
   append_each cfg xs st = (replicate (length xs) (Thrown bad_message_exception), st)"
  by (induction xs) (simp_all add: append_item_failed)

lemma extract_each_failed:
  "\<not> m_ok st \<Longrightarrow>
   extract_each cfg xs st = (replicate (length xs) (Thrown bad_message_exception), st, xs)"
  by (induction xs) (simp_all add: extract_item_failed)

text \<open>
  C5. On a writer or a reader whose flag is false, every further string or blob
  operation throws \<open>bad_message_exception\<close> (BadState) and changes nothing: whatever
  the sequence of calls, each of them throws, and the whole state (flag, buffer with its
  header, cursor) and the caller's variables are what they were.
\<close>

theorem failed_flag_is_latched:
  "(\<not> m_ok w \<longrightarrow>
      append_each cfg xs w = (replicate (length xs) (Thrown bad_message_exception), w))
   \<and> (\<not> m_ok r \<longrightarrow>
      extract_each cfg ys r = (replicate (length ys) (Thrown bad_message_exception), r, ys))"
  by (simp add: append_each_failed extract_each_failed)

theorem failed_flag_is_latched_witness:
  "append_each \<lparr>use_tags = True, len_size = 4, max_size = 64\<rparr>
     [String_item [97], Blob_item [1], String_item []]
     \<lparr>m_ok = False, m_buffer = [0, 0, 0, 0]\<rparr>
   = ([Thrown bad_message_exception, Thrown bad_message_exception, Thrown bad_message_exception],
      \<lparr>m_ok = False, m_buffer = [0, 0, 0, 0]\<rparr>)
   \<and> extract_each \<lparr>use_tags = True, len_size = 4, max_size = 64\<rparr>
     [String_item [7], Blob_item [7], Blob_item []]
     \<lparr>m_ok = False, m_buffer = [7, 0, 0, 0, 5, 97, 0], m_offset = 4\<rparr>
   = ([Thrown bad_message_exception, Thrown bad_message_exception, Thrown bad_message_exception],
      \<lparr>m_ok = False, m_buffer = [7, 0, 0, 0, 5, 97, 0], m_offset = 4\<rparr>,
      [String_item [7], Blob_item [7], Blob_item []])"
  using failed_flag_is_latched
    [of "\<lparr>m_ok = False, m_buffer = [0, 0, 0, 0]\<rparr>"
        "\<lparr>use_tags = True, len_size = 4, max_size = 64\<rparr>"
        "[String_item [97], Blob_item [1], String_item []]"
        "\<lparr>m_ok = False, m_buffer = [7, 0, 0, 0, 5, 97, 0], m_offset = 4\<rparr>"
        "[String_item [7], Blob_item [7], Blob_item []]"]
  by (simp add: numeral_3_eq_3)

section \<open>The output argument of an extraction\<close>

text \<open>
  C10. When a blob extraction returns and the length sub-field it read is 0, the
  caller's vector is as it was passed in. A string extraction on a reader whose flag is
  true does not depend on what the caller's string held: it is cleared first.
\<close>

theorem zero_length_blob_keeps_output:
  "(in_message_rshift_blob cfg st arg = (Returned, st', arg') \<and> blob_len_field cfg st = 0
      \<longrightarrow> arg' = arg)
   \<and> (m_ok st \<longrightarrow>
        in_message_rshift_string cfg st arg = in_message_rshift_string cfg st [])"
  by (auto simp add: in_message_rshift_blob_def in_message_rshift_string_def blob_len_field_def
        check_status_def Let_def split: if_splits option.splits)

theorem zero_length_blob_keeps_output_witness:
  "in_message_rshift_blob \<lparr>use_tags = True, len_size = 4, max_size = 64\<rparr>
       \<lparr>m_ok = True, m_buffer = [9, 0, 0, 0, 8, 0, 0, 0, 0], m_offset = 4\<rparr> [7]
     = (Returned, \<lparr>m_ok = True, m_buffer = [9, 0, 0, 0, 8, 0, 0, 0, 0], m_offset = 9\<rparr>, [7])
   \<and> blob_len_field \<lparr>use_tags = True, len_size = 4, max_size = 64\<rparr>
       \<lparr>m_ok = True, m_buffer = [9, 0, 0, 0, 8, 0, 0, 0, 0], m_offset = 4\<rparr> = 0
   \<and> in_message_rshift_string \<lparr>use_tags = True, len_size = 4, max_size = 64\<rparr>
       \<lparr>m_ok = True, m_buffer = [8, 0, 0, 0, 5, 104, 105, 0], m_offset = 4\<rparr> [7]
     = (Returned, \<lparr>m_ok = True, m_buffer = [8, 0, 0, 0, 5, 104, 105, 0], m_offset = 8\<rparr>,
        [104, 105])"
  using zero_length_blob_keeps_output
    [of "\<lparr>use_tags = True, len_size = 4, max_size = 64\<rparr>"
        "\<lparr>m_ok = True, m_buffer = [9, 0, 0, 0, 8, 0, 0, 0, 0], m_offset = 4\<rparr>" "[7]"
        "\<lparr>m_ok = True, m_buffer = [9, 0, 0, 0, 8, 0, 0, 0, 0], m_offset = 9\<rparr>" "[7]"]
  by (simp add: reader_eval blob_len_field_def)

section \<open>Facts about the machine integers and the scan\<close>

lemma le_value_bound: "le_value bs < 256 ^ length bs"
proof (induction bs)
  case Nil
  show ?case by simp
next
  case (Cons b bs)
  have "unat b < 256"
    using unsigned_less [of b, where ?'a = nat] by simp
  with Cons show ?case by simp
qed

lemma header_bound: "header cfg buf < 256 ^ len_size cfg"
proof -
  have "le_value (take (len_size cfg) buf) < 256 ^ length (take (len_size cfg) buf)"
    by (rule le_value_bound)
  also have "(256::nat) ^ length (take (len_size cfg) buf) \<le> 256 ^ len_size cfg"
    by (rule power_increasing) simp_all
  finally show ?thesis by (simp add: header_def)
qed

lemma header_less_size_t: "len_size cfg \<le> 8 \<Longrightarrow> header cfg buf < 2 ^ 64"
proof -
  assume "len_size cfg \<le> 8"
  then have "(256::nat) ^ len_size cfg \<le> 256 ^ 8"
    by (intro power_increasing) simp_all
  with header_bound [of cfg buf] show ?thesis by simp
qed

lemma size_t_id: "n < 2 ^ 64 \<Longrightarrow> size_t n = n"
  by (simp add: size_t_def)

lemma size_t_sub_id: "b \<le> a \<Longrightarrow> a < 2 ^ 64 \<Longrightarrow> size_t_sub a b = a - b"
proof -
  assume a: "b \<le> a" "a < 2 ^ 64"
  then have "int a - int b = int (a - b)" by simp
  moreover have "int (a - b) mod 2 ^ 64 = int (a - b)"
    using a by (simp add: zmod_int [symmetric] del: of_nat_diff)
  ultimately show ?thesis by (simp add: size_t_sub_def del: of_nat_diff)
qed

lemma find_zero_None: "find_zero xs = None \<longleftrightarrow> 0 \<notin> set xs"
  by (induction xs) auto

lemma find_zero_Some:
  "find_zero xs = Some k \<Longrightarrow> k < length xs \<and> xs ! k = 0 \<and> 0 \<notin> set (take k xs)"
proof (induction xs arbitrary: k)
  case Nil
  then show ?case by simp
next
  case (Cons x xs)
  then show ?case by (auto split: if_splits)
qed

section \<open>Tag mismatch\<close>

text \<open>
  C7. With tagging enabled, a string or blob extraction that gets as far as comparing the
  tag (the flag is true and the declared length covers the minimum size of the field
  asked for) and finds at the cursor a byte that is not the tag of that type throws
  \<open>type_mismach_exception\<close> (TypeMismatch) with the name of the tag found and the
  name of the tag expected; the cursor stays where it was and the flag is false
  afterwards.
\<close>

theorem tag_mismatch_is_reported:
  assumes "use_tags cfg" and "m_ok st" and "len_size cfg \<le> length (m_buffer st)"
    and "byte_at (m_buffer st) (m_offset st) = Some t"
  shows "(t \<noteq> tag_code str \<and> size_t (m_offset st + 2) \<le> header cfg (m_buffer st) \<longrightarrow>
            in_message_rshift_string cfg st arg =
              (Thrown (type_mismach_exception (to_string t) ''str''), st\<lparr>m_ok := False\<rparr>, []))
       \<and> (t \<noteq> tag_code blob
            \<and> size_t (m_offset st + (1 + len_size cfg)) \<le> header cfg (m_buffer st) \<longrightarrow>
            in_message_rshift_blob cfg st arg =
              (Thrown (type_mismach_exception (to_string t) ''blob''), st\<lparr>m_ok := False\<rparr>, arg))"
  using assms
  by (simp add: in_message_rshift_string_def in_message_rshift_blob_def check_status_def
      fail_status_def to_string_def Let_def)

theorem tag_mismatch_is_reported_witness:
  "in_message_rshift_string \<lparr>use_tags = True, len_size = 4, max_size = 64\<rparr>
       \<lparr>m_ok = True, m_buffer = [10, 0, 0, 0, 6, 120, 0, 0, 0, 0], m_offset = 4\<rparr> [7]
     = (Thrown (type_mismach_exception ''chr'' ''str''),
        \<lparr>m_ok = False, m_buffer = [10, 0, 0, 0, 6, 120, 0, 0, 0, 0], m_offset = 4\<rparr>, [])
   \<and> in_message_rshift_blob \<lparr>use_tags = True, len_size = 4, max_size = 64\<rparr>
       \<lparr>m_ok = True, m_buffer = [10, 0, 0, 0, 6, 120, 0, 0, 0, 0], m_offset = 4\<rparr> [7]
     = (Thrown (type_mismach_exception ''chr'' ''blob''),
        \<lparr>m_ok = False, m_buffer = [10, 0, 0, 0, 6, 120, 0, 0, 0, 0], m_offset = 4\<rparr>, [7])"
  using tag_mismatch_is_reported
    [of "\<lparr>use_tags = True, len_size = 4, max_size = 64\<rparr>"
        "\<lparr>m_ok = True, m_buffer = [10, 0, 0, 0, 6, 120, 0, 0, 0, 0], m_offset = 4\<rparr>"
        6 "[7]"]
  by (simp add: byte_at_def header_def size_t_def to_string_def)

section \<open>Missing terminator\<close>

text \<open>
  C6. A string extraction that gets as far as the scan (flag true, declared length
  covering the tag and one byte, the tag that of a string) looks for the zero byte among
  the bytes from the cursor up to the declared length only. When none of them is zero,
  whatever the buffer holds behind the declared length, the call throws
  \<open>container_overflow_exception\<close> (MalformedContainer), which is not the exception of a
  message that is too short, and the flag is false afterwards. The declared length is
  taken to lie within the vector, and the length type to be no wider than \<open>size_t\<close>.
\<close>

theorem missing_terminator_is_reported:
  assumes "m_ok st" and "len_size cfg \<le> length (m_buffer st)" and "len_size cfg \<le> 8"
    and "m_offset st + (if use_tags cfg then 2 else 1) \<le> header cfg (m_buffer st)"
    and "header cfg (m_buffer st) \<le> length (m_buffer st)"
    and "use_tags cfg \<longrightarrow> byte_at (m_buffer st) (m_offset st) = Some (tag_code str)"
    and "0 \<notin> set (string_window cfg st)"
  shows "in_message_rshift_string cfg st arg =
           (Thrown container_overflow_exception,
            st\<lparr>m_ok := False, m_offset := m_offset st + (if use_tags cfg then 1 else 0)\<rparr>, [])
         \<and> (\<forall>n m. container_overflow_exception \<noteq> message_too_short_exception n m)"
proof -
  let ?size = "header cfg (m_buffer st)"
  let ?off = "m_offset st + (if use_tags cfg then 1 else 0)"
  have size: "?size < 2 ^ 64"
    using assms(3) by (rule header_less_size_t)
  have delta: "size_t (m_offset st + (if use_tags cfg then 2 else 1))
      = m_offset st + (if use_tags cfg then 2 else 1)"
    using assms(4) size by (intro size_t_id) simp
  have off: "size_t (m_offset st + 1) = m_offset st + 1"
    using assms(4) size by (intro size_t_id) (simp split: if_splits)
  have le: "?off \<le> ?size"
    using assms(4) by (simp split: if_splits)
  have sub: "size_t_sub ?size ?off = ?size - ?off"
    using le size by (rule size_t_sub_id)
  have scan: "memchr_zero (m_buffer st) ?off (?size - ?off) = NotFound"
    using assms(5,7) le
    by (simp add: memchr_zero_def string_window_def Let_def find_zero_None [symmetric])
  show ?thesis
  proof (cases "use_tags cfg")
    case True
    with assms(1,2,4,6) delta off sub scan show ?thesis
      by (simp add: in_message_rshift_string_def check_status_def fail_status_def Let_def)
  next
    case False
    with assms(1,2,4) delta sub scan show ?thesis
      by (simp add: in_message_rshift_string_def check_status_def fail_status_def Let_def)
  qed
qed

text \<open>
  The buffer of the witness declares 8 bytes; the zero byte at index 8 lies behind them
  and is not found.
\<close>

theorem missing_terminator_is_reported_witness:
  "in_message_rshift_string \<lparr>use_tags = True, len_size = 4, max_size = 64\<rparr>
       \<lparr>m_ok = True, m_buffer = [8, 0, 0, 0, 5, 97, 98, 99, 0], m_offset = 4\<rparr> [7]
     = (Thrown container_overflow_exception,
        \<lparr>m_ok = False, m_buffer = [8, 0, 0, 0, 5, 97, 98, 99, 0], m_offset = 5\<rparr>, [])"
  using missing_terminator_is_reported
    [of "\<lparr>m_ok = True, m_buffer = [8, 0, 0, 0, 5, 97, 98, 99, 0], m_offset = 4\<rparr>"
        "\<lparr>use_tags = True, len_size = 4, max_size = 64\<rparr>" "[7]"]
  by (simp add: byte_at_def header_def string_window_def)


section \<open>The two variants of the writer and the reader\<close>

lemma string_view_flag_agrees:
  "m_ok w \<Longrightarrow>
   out_message_lshift_string_view_flag cfg s w =
     (silenced (fst (out_message_lshift_string_view cfg s w)),
      snd (out_message_lshift_string_view cfg s w))"
  by (simp add: out_message_lshift_string_view_def out_message_lshift_string_view_flag_def
      check_status_def fail_status_def Let_def)

lemma blob_flag_agrees:
  "m_ok w \<Longrightarrow>
   out_message_lshift_blob_flag cfg b w =
     (silenced (fst (out_message_lshift_blob cfg b w)), snd (out_message_lshift_blob cfg b w))"
  by (simp add: out_message_lshift_blob_def out_message_lshift_blob_flag_def
      check_status_def fail_status_def Let_def)

lemma rshift_string_flag_agrees:
  "in_message_rshift_string_flag cfg r a =
     (silenced (fst (in_message_rshift_string cfg r a)), snd (in_message_rshift_string cfg r a))"
  by (simp add: in_message_rshift_string_def in_message_rshift_string_flag_def
      check_status_def fail_status_def Let_def split: option.splits scan.splits)

lemma rshift_blob_flag_agrees:
  "in_message_rshift_blob_flag cfg r a =
     (silenced (fst (in_message_rshift_blob cfg r a)), snd (in_message_rshift_blob cfg r a))"
  by (simp add: in_message_rshift_blob_def in_message_rshift_blob_flag_def
      check_status_def fail_status_def Let_def split: option.splits)

lemma append_item_flag_agrees:
  "m_ok w \<Longrightarrow>
   append_item_flag cfg x w = (silenced (fst (append_item cfg x w)), snd (append_item cfg x w))"
  by (cases x) (simp_all add: string_view_flag_agrees blob_flag_agrees)

lemma extract_item_flag_agrees:
  "extract_item_flag cfg x r = (silenced (fst (extract_item cfg x r)), snd (extract_item cfg x r))"
  by (cases x)
     (simp_all add: rshift_string_flag_agrees rshift_blob_flag_agrees split: prod.splits)

lemma extract_each_flag_agrees:
  "extract_each_flag cfg xs r
   = (map silenced (fst (extract_each cfg xs r)), snd (extract_each cfg xs r))"
proof (induction xs arbitrary: r)
  case Nil
  show ?case by simp
next
  case (Cons x xs)
  show ?case
    by (simp add: extract_item_flag_agrees Cons.IH split: prod.splits)
qed

lemma append_item_returned_ok:
  "m_ok w \<Longrightarrow> append_item cfg x w = (Returned, w') \<Longrightarrow> m_ok w'"
  by (cases x)
     (auto simp add: out_message_lshift_string_view_def out_message_lshift_blob_def
        check_status_def fail_status_def Let_def split: if_splits)

lemma append_chain_flag_agrees:
  "m_ok w \<Longrightarrow> append_all cfg xs w = (Returned, w') \<Longrightarrow>
   append_each_flag cfg xs w = (replicate (length xs) Returned, w')"
proof (induction xs arbitrary: w)
  case Nil
  then show ?case by simp
next
  case (Cons x xs)
  from Cons.prems(2) obtain w1 where first: "append_item cfg x w = (Returned, w1)"
    and rest: "append_all cfg xs w1 = (Returned, w')"
    by (auto split: prod.splits outcome.splits)
  from Cons.prems(1) first have ok: "m_ok w1"
    by (rule append_item_returned_ok)
  from Cons.prems(1) first have "append_item_flag cfg x w = (Returned, w1)"
    by (simp add: append_item_flag_agrees)
  with Cons.IH [OF ok rest] show ?case
    by simp
qed

text \<open>
  C9. The exception variant (src/source/ipc.cpp) and the status-flag variant
  (src/unnamed/part_000) should leave the same buffer, header, cursor, extracted value
  and flag after every operation. They do not on a writer whose flag is already false:
  the first throws and leaves the buffer, the second does not test the flag and appends
  what fits.
\<close>

theorem variants_differ_on_failed_writer:
  "out_message_lshift_string_view \<lparr>use_tags = True, len_size = 4, max_size = 64\<rparr> [97]
       \<lparr>m_ok = False, m_buffer = [0, 0, 0, 0]\<rparr>
     = (Thrown bad_message_exception, \<lparr>m_ok = False, m_buffer = [0, 0, 0, 0]\<rparr>)
   \<and> out_message_lshift_string_view_flag \<lparr>use_tags = True, len_size = 4, max_size = 64\<rparr> [97]
       \<lparr>m_ok = False, m_buffer = [0, 0, 0, 0]\<rparr>
     = (Returned, \<lparr>m_ok = False, m_buffer = [3, 0, 0, 0, 5, 97, 0]\<rparr>)"
  by (simp add: writer_eval out_message_lshift_string_view_flag_def)

text \<open>
  C9, amended. An append on a writer whose flag is true, and an extraction in any state,
  leave the same state and the same caller's variable in both variants; where the
  exception variant throws, the status-flag variant returns. So do every chain of
  appends that all return, started on a writer whose flag is true, and every sequence of
  extractions.
\<close>

theorem variants_agree_while_flag_true:
  "(m_ok w \<longrightarrow>
      out_message_lshift_string_view_flag cfg s w =
        (silenced (fst (out_message_lshift_string_view cfg s w)),
         snd (out_message_lshift_string_view cfg s w))
      \<and> out_message_lshift_blob_flag cfg b w =
        (silenced (fst (out_message_lshift_blob cfg b w)),
         snd (out_message_lshift_blob cfg b w))
      \<and> (append_all cfg xs w = (Returned, w') \<longrightarrow>
           append_each_flag cfg xs w = (replicate (length xs) Returned, w')))
   \<and> in_message_rshift_string_flag cfg r a =
        (silenced (fst (in_message_rshift_string cfg r a)),
         snd (in_message_rshift_string cfg r a))
   \<and> in_message_rshift_blob_flag cfg r a =
        (silenced (fst (in_message_rshift_blob cfg r a)),
         snd (in_message_rshift_blob cfg r a))
   \<and> extract_each_flag cfg ys r
        = (map silenced (fst (extract_each cfg ys r)), snd (extract_each cfg ys r))"
  by (simp add: string_view_flag_agrees blob_flag_agrees rshift_string_flag_agrees
      rshift_blob_flag_agrees append_chain_flag_agrees extract_each_flag_agrees)

theorem variants_agree_while_flag_true_witness:
  "out_message_lshift_string_view_flag \<lparr>use_tags = True, len_size = 4, max_size = 6\<rparr> [97]
       \<lparr>m_ok = True, m_buffer = [4, 0, 0, 0]\<rparr>
     = (Returned, \<lparr>m_ok = False, m_buffer = [4, 0, 0, 0]\<rparr>)
   \<and> out_message_lshift_blob_flag \<lparr>use_tags = True, len_size = 4, max_size = 6\<rparr> [1]
       \<lparr>m_ok = True, m_buffer = [4, 0, 0, 0]\<rparr>
     = (Returned, \<lparr>m_ok = True, m_buffer = [10, 0, 0, 0, 8, 1, 0, 0, 0, 1]\<rparr>)
   \<and> append_each_flag \<lparr>use_tags = True, len_size = 4, max_size = 6\<rparr> [Blob_item [1]]
       \<lparr>m_ok = True, m_buffer = [4, 0, 0, 0]\<rparr>
     = ([Returned], \<lparr>m_ok = True, m_buffer = [10, 0, 0, 0, 8, 1, 0, 0, 0, 1]\<rparr>)
   \<and> in_message_rshift_string_flag \<lparr>use_tags = True, len_size = 4, max_size = 6\<rparr>
       \<lparr>m_ok = True, m_buffer = [10, 0, 0, 0, 8, 1, 0, 0, 0, 1], m_offset = 4\<rparr> [7]
     = (Returned, \<lparr>m_ok = False, m_buffer = [10, 0, 0, 0, 8, 1, 0, 0, 0, 1], m_offset = 4\<rparr>, [])
   \<and> in_message_rshift_blob_flag \<lparr>use_tags = True, len_size = 4, max_size = 6\<rparr>
       \<lparr>m_ok = True, m_buffer = [10, 0, 0, 0, 8, 1, 0, 0, 0, 1], m_offset = 4\<rparr> [7]
     = (Returned, \<lparr>m_ok = True, m_buffer = [10, 0, 0, 0, 8, 1, 0, 0, 0, 1], m_offset = 10\<rparr>, [1])
   \<and> extract_each_flag \<lparr>use_tags = True, len_size = 4, max_size = 6\<rparr>
       [Blob_item [7], Blob_item [7]]
       \<lparr>m_ok = True, m_buffer = [10, 0, 0, 0, 8, 1, 0, 0, 0, 1], m_offset = 4\<rparr>
     = ([Returned, Returned],
        \<lparr>m_ok = False, m_buffer = [10, 0, 0, 0, 8, 1, 0, 0, 0, 1], m_offset = 10\<rparr>,
        [Blob_item [1], Blob_item [7]])"
proof -
  let ?cfg = "\<lparr>use_tags = True, len_size = 4, max_size = 6\<rparr>"
  let ?w = "\<lparr>m_ok = True, m_buffer = [4, 0, 0, 0]\<rparr>"
  let ?w' = "\<lparr>m_ok = True, m_buffer = [10, 0, 0, 0, 8, 1, 0, 0, 0, 1]\<rparr>"
  let ?r = "\<lparr>m_ok = True, m_buffer = [10, 0, 0, 0, 8, 1, 0, 0, 0, 1], m_offset = 4\<rparr>"
  have ok: "m_ok ?w"
    by simp
  have str: "out_message_lshift_string_view ?cfg [97] ?w
      = (Thrown (message_overflow_exception 7 6), \<lparr>m_ok = False, m_buffer = [4, 0, 0, 0]\<rparr>)"
    by (simp add: writer_eval)
  have blb: "out_message_lshift_blob ?cfg [1] ?w = (Returned, ?w')"
    by (simp add: writer_eval)
  have chain: "append_all ?cfg [Blob_item [1]] ?w = (Returned, ?w')"
    by (simp add: writer_eval)
  have rstr: "in_message_rshift_string ?cfg ?r [7]
      = (Thrown (type_mismach_exception ''blob'' ''str''),
         \<lparr>m_ok = False, m_buffer = [10, 0, 0, 0, 8, 1, 0, 0, 0, 1], m_offset = 4\<rparr>, [])"
    by (simp add: reader_eval)
  have rblb: "in_message_rshift_blob ?cfg ?r [7]
      = (Returned,
         \<lparr>m_ok = True, m_buffer = [10, 0, 0, 0, 8, 1, 0, 0, 0, 1], m_offset = 10\<rparr>, [1])"
    by (simp add: reader_eval)
  have each: "extract_each ?cfg [Blob_item [7], Blob_item [7]] ?r
      = ([Returned, Thrown (message_too_short_exception 15 10)],
         \<lparr>m_ok = False, m_buffer = [10, 0, 0, 0, 8, 1, 0, 0, 0, 1], m_offset = 10\<rparr>,
         [Blob_item [1], Blob_item [7]])"
    by (simp add: reader_eval)
  note agree = variants_agree_while_flag_true
    [where w = ?w and cfg = ?cfg and s = "[97]" and b = "[1]" and xs = "[Blob_item [1]]"
       and w' = ?w' and r = ?r and a = "[7]" and ys = "[Blob_item [7], Blob_item [7]]",
     unfolded str blb chain rstr rblb each]
  from agree ok show ?thesis
    by (simp del: append_each_flag.simps extract_each_flag.simps)
qed

section \<open>Client endpoint\<close>

declare connect_loop.simps [simp del]

lemma connect_loop_retries:
  "\<forall>j. a \<le> j \<and> j < a + k \<longrightarrow> (\<exists>e. connect_errno os j = Some e \<and> transient e)
   \<Longrightarrow> a + k \<le> max_attempts_count
   \<Longrightarrow> connect_loop os a calls = connect_loop os (a + k) (calls @ retries k)"
proof (induction k arbitrary: a calls)
  case 0
  show ?case by (simp add: retries_def)
next
  case (Suc k)
  from Suc.prems(1) obtain e where e: "connect_errno os a = Some e" "transient e"
    by fastforce
  from Suc.prems(1)
  have tl: "\<forall>j. Suc a \<le> j \<and> j < Suc a + k \<longrightarrow> (\<exists>e. connect_errno os j = Some e \<and> transient e)"
    by simp
  from Suc.prems(2) have lt: "a < max_attempts_count" by simp
  have "connect_loop os a calls = connect_loop os (Suc a) (calls @ [Call_connect, Call_sleep 1])"
    using e lt by (subst connect_loop.simps) (simp add: transient_def)
  also have "\<dots> = connect_loop os (Suc a + k) ((calls @ [Call_connect, Call_sleep 1]) @ retries k)"
    using tl Suc.prems(2) by (intro Suc.IH) simp_all
  finally show ?case
    by (simp add: retries_def)
qed

lemma transient_untilD:
  assumes "transient_until os k"
  shows "\<forall>j. 0 \<le> j \<and> j < 0 + k \<longrightarrow> (\<exists>e. connect_errno os j = Some e \<and> transient e)"
proof (intro allI impI)
  fix j
  assume "0 \<le> j \<and> j < 0 + k"
  then have "j \<in> set [0..<k]" by simp
  with assms have "case connect_errno os j of None \<Rightarrow> False | Some e \<Rightarrow> transient e"
    unfolding transient_until_def list_all_iff by blast
  then show "\<exists>e. connect_errno os j = Some e \<and> transient e"
    by (cases "connect_errno os j") simp_all
qed

lemma connect_loop_count:
  "count_list (snd (snd (connect_loop os a calls))) Call_connect
     \<le> count_list calls Call_connect + (max_attempts_count - a)"
proof (induction os a calls rule: connect_loop.induct)
  case (1 os attempt calls)
  show ?case
  proof (cases "attempt < max_attempts_count")
    case False
    then show ?thesis by (subst connect_loop.simps) simp
  next
    case lt: True
    show ?thesis
    proof (cases "connect_errno os attempt")
      case None
      with lt show ?thesis by (subst connect_loop.simps) simp
    next
      case (Some e)
      show ?thesis
      proof (cases "e = EAGAIN \<or> e = ECONNREFUSED \<or> e = EINPROGRESS")
        case True
        from "1.IH" [OF lt Some True] lt Some True show ?thesis
          by (subst connect_loop.simps) simp
      next
        case False
        with lt Some show ?thesis by (subst connect_loop.simps) simp
      qed
    qed
  qed
qed

lemma client_absent_path:
  "socket_result os \<noteq> INVALID_SOCKET \<Longrightarrow> \<not> path_exists os \<Longrightarrow>
   unix_client_socket os =
     (Thrown (socket_prepare_exception ENOENT), \<lparr>m_ok = False, m_socket = socket_result os\<rparr>,
      [Call_socket, Call_exists])"
  by (simp add: unix_client_socket_def fail_status_def Let_def)

lemma client_connect_count:
  "count_list (snd (snd (unix_client_socket os))) Call_connect \<le> 10"
proof -
  have "count_list (snd (snd (connect_loop os 0 [Call_socket, Call_exists]))) Call_connect
          \<le> count_list [Call_socket, Call_exists] Call_connect + (max_attempts_count - 0)"
    by (rule connect_loop_count)
  then have "count_list (snd (snd (connect_loop os 0 [Call_socket, Call_exists]))) Call_connect \<le> 10"
    by (simp add: max_attempts_count_def)
  then show ?thesis
    by (auto simp add: unix_client_socket_def Let_def split: prod.splits option.splits)
qed

lemma client_after_retries:
  assumes "socket_result os \<noteq> INVALID_SOCKET" and "path_exists os"
    and "transient_until os k" and "k \<le> 10"
  shows "connect_loop os 0 [Call_socket, Call_exists]
           = connect_loop os k ([Call_socket, Call_exists] @ retries k)"
  using connect_loop_retries [OF transient_untilD [OF assms(3)], of "[Call_socket, Call_exists]"]
    assms(4)
  by (simp add: max_attempts_count_def)

lemma client_exhausted:
  assumes "socket_result os \<noteq> INVALID_SOCKET" and "path_exists os"
    and "transient_until os 10"
  shows "\<exists>e. unix_client_socket os =
           (Thrown (socket_prepare_exception e), \<lparr>m_ok = False, m_socket = socket_result os\<rparr>,
            [Call_socket, Call_exists] @ retries 10)"
proof -
  have "connect_loop os 0 [Call_socket, Call_exists]
          = connect_loop os 10 ([Call_socket, Call_exists] @ retries 10)"
    using assms by (intro client_after_retries) simp_all
  also have "\<dots> = (None, 10, [Call_socket, Call_exists] @ retries 10)"
    by (subst connect_loop.simps) (simp add: max_attempts_count_def)
  finally show ?thesis
    using assms(1,2)
    by (simp add: unix_client_socket_def fail_status_def Let_def max_attempts_count_def)
qed

lemma client_fatal_error:
  assumes "socket_result os \<noteq> INVALID_SOCKET" and "path_exists os"
    and "transient_until os k" and "k < 10"
    and "connect_errno os k = Some e" and "\<not> transient e"
  shows "unix_client_socket os =
           (Thrown (socket_prepare_exception e), \<lparr>m_ok = False, m_socket = socket_result os\<rparr>,
            [Call_socket, Call_exists] @ retries k @ [Call_connect])"
proof -
  have "connect_loop os 0 [Call_socket, Call_exists]
          = connect_loop os k ([Call_socket, Call_exists] @ retries k)"
    using assms by (intro client_after_retries) simp_all
  also have "\<dots> = (Some e, k, ([Call_socket, Call_exists] @ retries k) @ [Call_connect])"
    using assms(4-6) by (subst connect_loop.simps) (simp add: max_attempts_count_def transient_def)
  finally show ?thesis
    using assms(1,2)
    by (simp add: unix_client_socket_def fail_status_def Let_def)
qed

lemma client_connected:
  assumes "socket_result os \<noteq> INVALID_SOCKET" and "path_exists os"
    and "transient_until os k" and "k < 10"
    and "connect_errno os k = None"
  shows "unix_client_socket os =
           (if non_blocking_ok os then Returned
            else Thrown (socket_prepare_exception (non_blocking_errno os)),
            \<lparr>m_ok = non_blocking_ok os, m_socket = socket_result os\<rparr>,
            [Call_socket, Call_exists] @ retries k @ [Call_connect, Call_set_non_blocking])"
proof -
  have "connect_loop os 0 [Call_socket, Call_exists]
          = connect_loop os k ([Call_socket, Call_exists] @ retries k)"
    using assms by (intro client_after_retries) simp_all
  also have "\<dots> = (None, k, ([Call_socket, Call_exists] @ retries k) @ [Call_connect])"
    using assms(4,5) by (subst connect_loop.simps) (simp add: max_attempts_count_def)
  finally show ?thesis
    using assms(1,2,4)
    by (simp add: unix_client_socket_def fail_status_def Let_def max_attempts_count_def)
qed

lemma client_absent_path_any:
  "\<not> path_exists os \<Longrightarrow>
   (\<exists>e. fst (unix_client_socket os) = Thrown (socket_prepare_exception e))
   \<and> Call_connect \<notin> set (snd (snd (unix_client_socket os)))
   \<and> \<not> m_ok (fst (snd (unix_client_socket os)))"
  by (simp add: unix_client_socket_def fail_status_def Let_def)

text \<open>
  C8. If the path does not exist the constructor throws \<open>socket_prepare_exception\<close>
  (SocketPrepareFailed) and has not called \<open>connect\<close>. In every case \<open>connect\<close> is
  called at most 10 times. When the descriptor could be allocated and the path exists:
  after \<open>k\<close> failures with \<open>EAGAIN\<close>, \<open>ECONNREFUSED\<close> or \<open>EINPROGRESS\<close>, each followed by
  a sleep of one second, a failure with any other code throws with that code and no
  further call, ten such failures throw after the tenth, and a success goes on to the
  non-blocking mode.
\<close>

theorem client_connect_is_bounded:
  "(\<not> path_exists os \<longrightarrow>
      (\<exists>e. fst (unix_client_socket os) = Thrown (socket_prepare_exception e))
      \<and> Call_connect \<notin> set (snd (snd (unix_client_socket os)))
      \<and> \<not> m_ok (fst (snd (unix_client_socket os))))
   \<and> count_list (snd (snd (unix_client_socket os))) Call_connect \<le> 10
   \<and> (socket_result os \<noteq> INVALID_SOCKET \<longrightarrow>
        (\<not> path_exists os \<longrightarrow>
           unix_client_socket os =
             (Thrown (socket_prepare_exception ENOENT),
              \<lparr>m_ok = False, m_socket = socket_result os\<rparr>, [Call_socket, Call_exists]))
      \<and> (path_exists os \<and> transient_until os k \<longrightarrow>
            (k = 10 \<longrightarrow>
               (\<exists>e. unix_client_socket os =
                  (Thrown (socket_prepare_exception e),
                   \<lparr>m_ok = False, m_socket = socket_result os\<rparr>,
                   [Call_socket, Call_exists] @ retries 10)))
          \<and> (k < 10 \<longrightarrow>
               (\<forall>e. connect_errno os k = Some e \<and> \<not> transient e \<longrightarrow>
                  unix_client_socket os =
                    (Thrown (socket_prepare_exception e),
                     \<lparr>m_ok = False, m_socket = socket_result os\<rparr>,
                     [Call_socket, Call_exists] @ retries k @ [Call_connect]))
             \<and> (connect_errno os k = None \<longrightarrow>
                  unix_client_socket os =
                    (if non_blocking_ok os then Returned
                     else Thrown (socket_prepare_exception (non_blocking_errno os)),
                     \<lparr>m_ok = non_blocking_ok os, m_socket = socket_result os\<rparr>,
                     [Call_socket, Call_exists] @ retries k
                       @ [Call_connect, Call_set_non_blocking])))))"
  using client_absent_path_any [of os] client_absent_path [of os] client_connect_count [of os]
    client_exhausted [of os] client_fatal_error [of os k] client_connected [of os k]
  by blast

theorem client_connect_is_bounded_witness:
  "unix_client_socket
     \<lparr>socket_result = 3, socket_errno = 0, path_exists = True,
      connect_errno = (\<lambda>k. if k < 2 then Some 111 else Some 13),
      non_blocking_ok = True, non_blocking_errno = 0\<rparr>
   = (Thrown (socket_prepare_exception 13), \<lparr>m_ok = False, m_socket = 3\<rparr>,
      [Call_socket, Call_exists, Call_connect, Call_sleep 1, Call_connect, Call_sleep 1,
       Call_connect])"
  using client_connect_is_bounded
    [of "\<lparr>socket_result = 3, socket_errno = 0, path_exists = True,
          connect_errno = (\<lambda>k. if k < 2 then Some 111 else Some 13),
          non_blocking_ok = True, non_blocking_errno = 0\<rparr>" 2]
  by (simp add: INVALID_SOCKET_def transient_until_def transient_def retries_def
      EAGAIN_def ECONNREFUSED_def EINPROGRESS_def upt_conv_Cons numeral_2_eq_2)


section \<open>Reads stay within the declared length\<close>

lemma slice_take: "b + n \<le> h \<Longrightarrow> take n (drop b (take h buf)) = take n (drop b buf)"
  by (simp add: drop_take min_def)

lemma header_take: "len_size cfg \<le> h \<Longrightarrow> header cfg (take h buf) = header cfg buf"
  by (simp add: header_def min_def)

lemma byte_at_take: "i < h \<Longrightarrow> byte_at (take h buf) i = byte_at buf i"
  by (simp add: byte_at_def)

lemma memchr_zero_take: "b + n \<le> h \<Longrightarrow> memchr_zero (take h buf) b n = memchr_zero buf b n"
  by (simp add: memchr_zero_def slice_take)

lemma memchr_zero_in_range: "b + n \<le> length buf \<Longrightarrow> memchr_zero buf b n \<noteq> OutOfRange"
  by (simp add: memchr_zero_def split: option.splits)

lemma memchr_zero_Found:
  assumes "memchr_zero buf b n = Found e"
  shows "b \<le> e \<and> e < b + n \<and> e < length buf \<and> buf ! e = 0
         \<and> 0 \<notin> set (take (e - b) (drop b buf))"
proof -
  from assms obtain k where k: "find_zero (take n (drop b buf)) = Some k" and e: "e = b + k"
    by (auto simp add: memchr_zero_def split: option.splits if_splits)
  let ?w = "take n (drop b buf)"
  from find_zero_Some [OF k]
  have len: "k < length ?w" and z: "?w ! k = 0" and nz: "0 \<notin> set (take k ?w)"
    by blast+
  from len have kn: "k < n" and kl: "k < length buf - b"
    by simp_all
  from z kn have "drop b buf ! k = 0"
    by simp
  with kl have "buf ! (b + k) = 0"
    by simp
  moreover from kn have "take k ?w = take k (drop b buf)"
    by (simp add: min.absorb1)
  with nz have "0 \<notin> set (take k (drop b buf))"
    by simp
  ultimately show ?thesis
    using e kn kl by simp
qed

lemma header_less_2_56:
  assumes "len_size cfg < 8"
  shows "header cfg buf < 2 ^ 56"
proof -
  from assms have "(256::nat) ^ len_size cfg \<le> 256 ^ 7"
    by (intro power_increasing) simp_all
  with header_bound [of cfg buf] show ?thesis by simp
qed

lemma length_field_less_2_56:
  assumes "len_size cfg < 8"
  shows "le_value (take (len_size cfg) (drop off buf)) < 2 ^ 56"
proof -
  have "le_value (take (len_size cfg) (drop off buf))
          < 256 ^ length (take (len_size cfg) (drop off buf))"
    by (rule le_value_bound)
  also have "(256::nat) ^ length (take (len_size cfg) (drop off buf)) \<le> 256 ^ 7"
    using assms by (intro power_increasing) simp_all
  finally show ?thesis
    by simp
qed

lemma string_read_in_range:
  assumes "len_size cfg < 8" and "len_size cfg \<le> m_offset st"
    and "m_offset st \<le> header cfg (m_buffer st)"
    and "in_message_rshift_string cfg st arg = (r, st', a)"
  shows "(header cfg (m_buffer st) \<le> length (m_buffer st) \<longrightarrow> r \<noteq> Undefined)
         \<and> m_offset st \<le> m_offset st'
         \<and> m_offset st' \<le> header cfg (m_buffer st') \<and> m_buffer st' = m_buffer st"
proof -
  have h: "header cfg (m_buffer st) < 2 ^ 56"
    using assms(1) by (rule header_less_2_56)
  show ?thesis
    using assms h
    by (auto simp add: in_message_rshift_string_def check_status_def fail_status_def Let_def
        size_t_id size_t_sub_id byte_at_def memchr_zero_in_range
        split: if_splits option.splits scan.splits dest!: memchr_zero_Found)
qed

lemma blob_read_in_range:
  assumes "len_size cfg < 8" and "len_size cfg \<le> m_offset st"
    and "m_offset st \<le> header cfg (m_buffer st)"
    and "in_message_rshift_blob cfg st arg = (r, st', a)"
  shows "(header cfg (m_buffer st) \<le> length (m_buffer st) \<longrightarrow> r \<noteq> Undefined)
         \<and> m_offset st \<le> m_offset st'
         \<and> m_offset st' \<le> header cfg (m_buffer st') \<and> m_buffer st' = m_buffer st"
proof -
  have h: "header cfg (m_buffer st) < 2 ^ 56"
    using assms(1) by (rule header_less_2_56)
  note l = length_field_less_2_56 [OF assms(1), of _ "m_buffer st"]
  show ?thesis
    using assms h l [of "Suc (m_offset st)"] l [of "m_offset st"]
    by (auto simp add: in_message_rshift_blob_def check_status_def fail_status_def Let_def
        size_t_id byte_at_def
        split: if_splits option.splits)
qed

lemma string_read_truncated:
  assumes "len_size cfg < 8" and "len_size cfg \<le> m_offset st"
    and "m_offset st \<le> header cfg (m_buffer st)"
    and "in_message_rshift_string cfg st arg = (r, st', a)"
  shows "in_message_rshift_string cfg
           (st\<lparr>m_buffer := take (header cfg (m_buffer st)) (m_buffer st)\<rparr>) arg
         = (r, st'\<lparr>m_buffer := take (header cfg (m_buffer st)) (m_buffer st)\<rparr>, a)"
proof (cases "header cfg (m_buffer st) \<le> length (m_buffer st)")
  case True
  let ?h = "header cfg (m_buffer st)"
  have h: "?h < 2 ^ 56"
    using assms(1) by (rule header_less_2_56)
  have hd: "header cfg (take ?h (m_buffer st)) = ?h"
    using assms(2,3) by (simp add: header_take)
  have len: "length (take ?h (m_buffer st)) = ?h"
    using True by simp
  show ?thesis
    using assms h True
    by (auto simp add: in_message_rshift_string_def check_status_def fail_status_def Let_def
        size_t_id size_t_sub_id hd len byte_at_take memchr_zero_take slice_take
        simp del: length_take
        split: if_splits option.splits scan.splits dest!: memchr_zero_Found)
next
  case False
  then have same: "take (header cfg (m_buffer st)) (m_buffer st) = m_buffer st"
    by simp
  from string_read_in_range [OF assms] have "m_buffer st' = m_buffer st"
    by simp
  with same assms(4) show ?thesis
    by simp
qed

lemma blob_read_truncated:
  assumes "len_size cfg < 8" and "len_size cfg \<le> m_offset st"
    and "m_offset st \<le> header cfg (m_buffer st)"
    and "in_message_rshift_blob cfg st arg = (r, st', a)"
  shows "in_message_rshift_blob cfg
           (st\<lparr>m_buffer := take (header cfg (m_buffer st)) (m_buffer st)\<rparr>) arg
         = (r, st'\<lparr>m_buffer := take (header cfg (m_buffer st)) (m_buffer st)\<rparr>, a)"
proof (cases "header cfg (m_buffer st) \<le> length (m_buffer st)")
  case True
  let ?h = "header cfg (m_buffer st)"
  have h: "?h < 2 ^ 56"
    using assms(1) by (rule header_less_2_56)
  have hd: "header cfg (take ?h (m_buffer st)) = ?h"
    using assms(2,3) by (simp add: header_take)
  have len: "length (take ?h (m_buffer st)) = ?h"
    using True by simp
  note l = length_field_less_2_56 [OF assms(1), of _ "m_buffer st"]
  show ?thesis
    using assms h True l [of "Suc (m_offset st)"] l [of "m_offset st"]
    by (auto simp add: in_message_rshift_blob_def check_status_def fail_status_def Let_def
        size_t_id hd len byte_at_take slice_take
        simp del: length_take
        split: if_splits option.splits)
next
  case False
  then have same: "take (header cfg (m_buffer st)) (m_buffer st) = m_buffer st"
    by simp
  from blob_read_in_range [OF assms] have "m_buffer st' = m_buffer st"
    by simp
  with same assms(4) show ?thesis
    by simp
qed

lemma extract_item_in_range:
  assumes "len_size cfg < 8" and "len_size cfg \<le> m_offset st"
    and "m_offset st \<le> header cfg (m_buffer st)"
    and "extract_item cfg x st = (r, st', v)"
  shows "(header cfg (m_buffer st) \<le> length (m_buffer st) \<longrightarrow> r \<noteq> Undefined)
         \<and> m_offset st \<le> m_offset st'
         \<and> m_offset st' \<le> header cfg (m_buffer st') \<and> m_buffer st' = m_buffer st"
proof (cases x)
  case (String_item s)
  with assms(4) obtain a where "in_message_rshift_string cfg st s = (r, st', a)"
    by (auto split: prod.splits)
  with assms(1-3) show ?thesis
    by (rule string_read_in_range)
next
  case (Blob_item b)
  with assms(4) obtain a where "in_message_rshift_blob cfg st b = (r, st', a)"
    by (auto split: prod.splits)
  with assms(1-3) show ?thesis
    by (rule blob_read_in_range)
qed

lemma extract_item_truncated:
  assumes "len_size cfg < 8" and "len_size cfg \<le> m_offset st"
    and "m_offset st \<le> header cfg (m_buffer st)"
    and "extract_item cfg x st = (r, st', v)"
  shows "extract_item cfg x (st\<lparr>m_buffer := take (header cfg (m_buffer st)) (m_buffer st)\<rparr>)
         = (r, st'\<lparr>m_buffer := take (header cfg (m_buffer st)) (m_buffer st)\<rparr>, v)"
proof (cases x)
  case (String_item s)
  with assms(4) obtain a where a: "in_message_rshift_string cfg st s = (r, st', a)"
    and v: "v = String_item a"
    by (auto split: prod.splits)
  from string_read_truncated [OF assms(1-3) a] String_item v show ?thesis
    by simp
next
  case (Blob_item b)
  with assms(4) obtain a where a: "in_message_rshift_blob cfg st b = (r, st', a)"
    and v: "v = Blob_item a"
    by (auto split: prod.splits)
  from blob_read_truncated [OF assms(1-3) a] Blob_item v show ?thesis
    by simp
qed

text \<open>
  C4. For a reader whose cursor lies behind the header and within the declared length,
  and a length type narrower than \<open>size_t\<close>, every sequence of string and blob
  extractions keeps the cursor from decreasing and within the declared length, and gives
  the same outcomes, cursor and values on the buffer cut off at the declared length as on
  the whole buffer, so no byte at or behind the declared length is looked at; when the
  declared length lies within the vector no call reads outside the vector. The size
  checks (the minimum size of the field, then the size the length sub-field of a blob
  announces) are what makes this so: they come before the reads.
\<close>

theorem reads_stay_within_declared_length:
  assumes "len_size cfg < 8" and "len_size cfg \<le> m_offset st"
    and "m_offset st \<le> header cfg (m_buffer st)"
    and "extract_each cfg xs st = (rs, st', vs)"
  shows "(header cfg (m_buffer st) \<le> length (m_buffer st) \<longrightarrow> Undefined \<notin> set rs)
         \<and> m_offset st \<le> m_offset st'
         \<and> m_offset st' \<le> header cfg (m_buffer st') \<and> m_buffer st' = m_buffer st
         \<and> extract_each cfg xs (st\<lparr>m_buffer := take (header cfg (m_buffer st)) (m_buffer st)\<rparr>)
             = (rs, st'\<lparr>m_buffer := take (header cfg (m_buffer st)) (m_buffer st)\<rparr>, vs)"
  using assms(2-4)
proof (induction xs arbitrary: st rs vs st')
  case Nil
  then show ?case by auto
next
  case (Cons x xs)
  obtain r st1 v where item: "extract_item cfg x st = (r, st1, v)"
    by (cases "extract_item cfg x st") auto
  obtain rs' st2 vs' where rest: "extract_each cfg xs st1 = (rs', st2, vs')"
    by (cases "extract_each cfg xs st1") auto
  from Cons.prems(3) item rest have res: "rs = r # rs'" "st' = st2" "vs = v # vs'"
    by simp_all
  note step = extract_item_in_range [OF assms(1) Cons.prems(1,2) item]
  note cut = extract_item_truncated [OF assms(1) Cons.prems(1,2) item]
  from step have buf: "m_buffer st1 = m_buffer st"
    by blast
  from step Cons.prems(1) buf have inv: "len_size cfg \<le> m_offset st1"
    "m_offset st1 \<le> header cfg (m_buffer st1)"
    by auto
  note ih = Cons.IH [OF inv rest]
  from ih buf have "extract_each cfg xs
      (st1\<lparr>m_buffer := take (header cfg (m_buffer st)) (m_buffer st)\<rparr>)
      = (rs', st2\<lparr>m_buffer := take (header cfg (m_buffer st)) (m_buffer st)\<rparr>, vs')"
    by simp
  with cut have "extract_each cfg (x # xs)
      (st\<lparr>m_buffer := take (header cfg (m_buffer st)) (m_buffer st)\<rparr>)
      = (r # rs', st2\<lparr>m_buffer := take (header cfg (m_buffer st)) (m_buffer st)\<rparr>, v # vs')"
    by simp
  moreover from step
  have "header cfg (m_buffer st) \<le> length (m_buffer st) \<longrightarrow> r \<noteq> Undefined"
    and "m_offset st \<le> m_offset st1"
    by blast+
  moreover from ih buf
  have "header cfg (m_buffer st) \<le> length (m_buffer st) \<longrightarrow> Undefined \<notin> set rs'"
    and "m_offset st1 \<le> m_offset st2"
    and "m_offset st2 \<le> header cfg (m_buffer st2)" and "m_buffer st2 = m_buffer st"
    by auto
  ultimately show ?case
    using res by auto
qed

theorem reads_stay_within_declared_length_witness:
  "extract_each \<lparr>use_tags = True, len_size = 4, max_size = 64\<rparr>
     [String_item [], Blob_item [], String_item []]
     \<lparr>m_ok = True,
      m_buffer = [15, 0, 0, 0, 5, 104, 105, 0, 8, 2, 0, 0, 0, 222, 173, 5, 0], m_offset = 4\<rparr>
   = ([Returned, Returned, Thrown (message_too_short_exception 17 15)],
      \<lparr>m_ok = False,
       m_buffer = [15, 0, 0, 0, 5, 104, 105, 0, 8, 2, 0, 0, 0, 222, 173, 5, 0], m_offset = 15\<rparr>,
      [String_item [104, 105], Blob_item [222, 173], String_item []])
   \<and> extract_each \<lparr>use_tags = True, len_size = 4, max_size = 64\<rparr>
     [String_item [], Blob_item [], String_item []]
     \<lparr>m_ok = True,
      m_buffer = [15, 0, 0, 0, 5, 104, 105, 0, 8, 2, 0, 0, 0, 222, 173], m_offset = 4\<rparr>
   = ([Returned, Returned, Thrown (message_too_short_exception 17 15)],
      \<lparr>m_ok = False,
       m_buffer = [15, 0, 0, 0, 5, 104, 105, 0, 8, 2, 0, 0, 0, 222, 173], m_offset = 15\<rparr>,
      [String_item [104, 105], Blob_item [222, 173], String_item []])"
proof -
  let ?cfg = "\<lparr>use_tags = True, len_size = 4, max_size = 64\<rparr>"
  let ?buf = "[15, 0, 0, 0, 5, 104, 105, 0, 8, 2, 0, 0, 0, 222, 173, 5, 0] :: byte list"
  let ?st = "\<lparr>m_ok = True, m_buffer = ?buf, m_offset = 4\<rparr>"
  have run: "extract_each ?cfg [String_item [], Blob_item [], String_item []] ?st
     = ([Returned, Returned, Thrown (message_too_short_exception 17 15)],
        \<lparr>m_ok = False, m_buffer = ?buf, m_offset = 15\<rparr>,
        [String_item [104, 105], Blob_item [222, 173], String_item []])"
    by (simp add: reader_eval)
  have hdr: "header ?cfg ?buf = 15"
    by (simp add: header_def)
  from reads_stay_within_declared_length [of ?cfg ?st, OF _ _ _ run] hdr run
  show ?thesis
    by simp
qed


section \<open>Round trip\<close>

lemma length_le_bytes: "length (le_bytes n v) = n"
  by (induction n arbitrary: v) simp_all

lemma le_value_le_bytes: "le_value (le_bytes n v) = v mod 256 ^ n"
proof (induction n arbitrary: v)
  case 0
  show ?case by simp
next
  case (Suc n)
  have "unat (of_nat (v mod 256) :: byte) = v mod 256"
    by (simp add: unat_of_nat)
  with Suc show ?case
    by (simp add: mod_mult2_eq)
qed

lemma len_t_id: "n < 256 ^ len_size cfg \<Longrightarrow> len_t cfg n = n"
proof -
  have "(2::nat) ^ (8 * len_size cfg) = 256 ^ len_size cfg"
    by (simp add: power_mult)
  then show "n < 256 ^ len_size cfg \<Longrightarrow> len_t cfg n = n"
    by (simp add: len_t_def)
qed

lemma header_append:
  "len_size cfg \<le> length buf \<Longrightarrow> header cfg (buf @ rest) = header cfg buf"
  by (simp add: header_def)

lemma header_le_bytes:
  "header cfg (le_bytes (len_size cfg) v @ rest) = v mod 256 ^ len_size cfg"
  by (simp add: header_def length_le_bytes le_value_le_bytes)

lemma string_append_step:
  assumes "len_size cfg < 8" and "2 * max_size cfg < 256 ^ len_size cfg"
    and "m_ok w" and "len_size cfg \<le> length (m_buffer w)"
    and "length (m_buffer w) \<le> header cfg (m_buffer w)"
    and "length s < 2 ^ 63"
    and "out_message_lshift_string_view cfg s w = (Returned, w')"
  shows "m_ok w'
       \<and> drop (len_size cfg) (m_buffer w')
           = drop (len_size cfg) (m_buffer w) @ encode_item cfg (String_item s)
       \<and> length (m_buffer w') = length (m_buffer w) + length (encode_item cfg (String_item s))
       \<and> length (m_buffer w') \<le> header cfg (m_buffer w')
       \<and> length s < 256 ^ len_size cfg"
proof -
  have u: "header cfg (m_buffer w) < 2 ^ 56"
    using assms(1) by (rule header_less_2_56)
  show ?thesis
    using assms u
    by (auto simp add: out_message_lshift_string_view_def check_status_def fail_status_def
        Let_def size_t_id len_t_id header_append header_le_bytes set_header_def length_le_bytes
        split: if_splits)
qed

lemma blob_append_step:
  assumes "len_size cfg < 8" and "2 * max_size cfg < 256 ^ len_size cfg"
    and "m_ok w" and "len_size cfg \<le> length (m_buffer w)"
    and "length (m_buffer w) \<le> header cfg (m_buffer w)"
    and "length b < 2 ^ 63"
    and "out_message_lshift_blob cfg b w = (Returned, w')"
  shows "m_ok w'
       \<and> drop (len_size cfg) (m_buffer w')
           = drop (len_size cfg) (m_buffer w) @ encode_item cfg (Blob_item b)
       \<and> length (m_buffer w') = length (m_buffer w) + length (encode_item cfg (Blob_item b))
       \<and> length (m_buffer w') \<le> header cfg (m_buffer w')
       \<and> length b < 256 ^ len_size cfg"
proof -
  have u: "header cfg (m_buffer w) < 2 ^ 56"
    using assms(1) by (rule header_less_2_56)
  show ?thesis
    using assms u
    by (auto simp add: out_message_lshift_blob_def check_status_def fail_status_def
        Let_def size_t_id len_t_id header_append header_le_bytes set_header_def length_le_bytes
        split: if_splits)
qed

lemma find_zero_terminated:
  "0 \<notin> set s \<Longrightarrow> length s < n \<Longrightarrow> find_zero (take n (s @ 0 # rest)) = Some (length s)"
proof (induction s arbitrary: n)
  case Nil
  then show ?case by (cases n) simp_all
next
  case (Cons x s)
  then show ?case by (cases n) auto
qed

lemma drop_Suc_tl: "drop (Suc n) xs = tl (drop n xs)"
  by (simp add: drop_Suc tl_drop)

lemma string_extract_step:
  assumes "len_size cfg < 8" and "m_ok r" and "len_size cfg \<le> m_offset r"
    and "drop (m_offset r) (m_buffer r) = encode_item cfg (String_item s) @ rest"
    and "length (m_buffer r) \<le> header cfg (m_buffer r)"
    and "0 \<notin> set s"
  shows "in_message_rshift_string cfg r a
         = (Returned,
            r\<lparr>m_offset := m_offset r + length (encode_item cfg (String_item s))\<rparr>, s)"
proof -
  let ?buf = "m_buffer r" and ?off = "m_offset r"
  let ?h = "header cfg ?buf"
  let ?t = "if use_tags cfg then 1 else 0 :: nat"
  have h: "?h < 2 ^ 56"
    using assms(1) by (rule header_less_2_56)
  have "length (drop ?off ?buf) = length (encode_item cfg (String_item s) @ rest)"
    using assms(4) by simp
  then have len: "length ?buf = ?off + ?t + length s + 1 + length rest"
    by (simp split: if_splits)
  have lw: "\<not> length ?buf < len_size cfg"
    using assms(3) len by simp
  have tag: "use_tags cfg \<Longrightarrow> byte_at ?buf ?off = Some (tag_code str)"
  proof -
    assume "use_tags cfg"
    with assms(4) have "hd (drop ?off ?buf) = tag_code str"
      by simp
    moreover have "?off < length ?buf"
      using len by simp
    ultimately show ?thesis
      by (simp add: byte_at_def hd_drop_conv_nth)
  qed
  have body: "drop (?off + ?t) ?buf = s @ 0 # rest"
  proof (cases "use_tags cfg")
    case True
    with assms(4) show ?thesis
      by (simp add: drop_Suc_tl)
  next
    case False
    with assms(4) show ?thesis
      by simp
  qed
  have win: "length s < ?h - (?off + ?t)"
    using len assms(5) by (simp split: if_splits)
  have scan: "memchr_zero ?buf (?off + ?t) (?h - (?off + ?t)) = Found (?off + ?t + length s)"
    using find_zero_terminated [OF assms(6) win, of rest]
    by (simp add: memchr_zero_def body)
  have slice: "take (length s) (drop (?off + ?t) ?buf) = s"
    by (simp add: body)
  have le: "?off + ?t \<le> ?h" "?off + (if use_tags cfg then 2 else 1) \<le> ?h"
    using len assms(5) by (simp_all split: if_splits)
  have fin: "?off + ?t + length s + 1 \<le> ?h"
    using len assms(5) by (simp split: if_splits)
  have sub: "size_t_sub ?h (?off + ?t) = ?h - (?off + ?t)"
    using le(1) h by (intro size_t_sub_id) simp_all
  show ?thesis
  proof (cases "use_tags cfg")
    case True
    with assms(2) lw tag scan slice sub le h fin show ?thesis
      by (simp add: in_message_rshift_string_def check_status_def Let_def size_t_id)
  next
    case False
    with assms(2) lw scan slice sub le h fin show ?thesis
      by (simp add: in_message_rshift_string_def check_status_def Let_def size_t_id)
  qed
qed

lemma blob_extract_step:
  assumes "len_size cfg < 8" and "m_ok r" and "len_size cfg \<le> m_offset r"
    and "drop (m_offset r) (m_buffer r) = encode_item cfg (Blob_item b) @ rest"
    and "length (m_buffer r) \<le> header cfg (m_buffer r)"
    and "length b < 256 ^ len_size cfg"
    and "m_offset r \<le> length (m_buffer r)"
  shows "in_message_rshift_blob cfg r a
         = (Returned,
            r\<lparr>m_offset := m_offset r + length (encode_item cfg (Blob_item b))\<rparr>,
            if b = [] then a else b)"
proof -
  let ?buf = "m_buffer r" and ?off = "m_offset r" and ?lw = "len_size cfg"
  let ?h = "header cfg ?buf"
  let ?t = "if use_tags cfg then 1 else 0 :: nat"
  have h: "?h < 2 ^ 56"
    using assms(1) by (rule header_less_2_56)
  have "length (drop ?off ?buf) = length (encode_item cfg (Blob_item b) @ rest)"
    using assms(4) by simp
  with assms(7) have len: "length ?buf = ?off + ?t + ?lw + length b + length rest"
    by (simp add: length_le_bytes split: if_splits)
  have lw: "\<not> length ?buf < ?lw"
    using assms(3) len by simp
  have tag: "use_tags cfg \<Longrightarrow> byte_at ?buf ?off = Some (tag_code blob)"
  proof -
    assume "use_tags cfg"
    with assms(4) have "hd (drop ?off ?buf) = tag_code blob"
      by simp
    moreover have "?off < length ?buf"
      using len \<open>use_tags cfg\<close> by simp
    ultimately show ?thesis
      by (simp add: byte_at_def hd_drop_conv_nth)
  qed
  have body: "drop (?off + ?t) ?buf = le_bytes ?lw (length b) @ b @ rest"
  proof (cases "use_tags cfg")
    case True
    with assms(4) show ?thesis
      by (simp add: drop_Suc_tl)
  next
    case False
    with assms(4) show ?thesis
      by simp
  qed
  have fld: "le_value (take ?lw (drop (?off + ?t) ?buf)) = length b"
    using assms(6) by (simp add: body length_le_bytes le_value_le_bytes)
  have "drop ?lw (drop (?off + ?t) ?buf) = b @ rest"
    by (simp add: body length_le_bytes)
  then have pay: "drop (?off + ?t + ?lw) ?buf = b @ rest"
    by (simp add: add.commute)
  have slice: "take (length b) (drop (?off + ?t + ?lw) ?buf) = b"
    by (simp add: pay)
  have fin: "?off + ?t + ?lw + length b \<le> ?h" "?off + ?t + ?lw \<le> length ?buf"
    "?off + ?t + ?lw + length b \<le> length ?buf"
    using len assms(5) by simp_all
  show ?thesis
  proof (cases "use_tags cfg")
    case True
    with assms(2) lw tag fld slice fin h show ?thesis
      by (simp add: in_message_rshift_blob_def check_status_def Let_def size_t_id
          length_le_bytes)
  next
    case False
    with assms(2) lw fld slice fin h show ?thesis
      by (simp add: in_message_rshift_blob_def check_status_def Let_def size_t_id
          length_le_bytes)
  qed
qed

lemma append_item_step:
  assumes "len_size cfg < 8" and "2 * max_size cfg < 256 ^ len_size cfg"
    and "m_ok w" and "len_size cfg \<le> length (m_buffer w)"
    and "length (m_buffer w) \<le> header cfg (m_buffer w)"
    and "item_wf x"
    and "append_item cfg x w = (Returned, w')"
  shows "m_ok w'
       \<and> drop (len_size cfg) (m_buffer w')
           = drop (len_size cfg) (m_buffer w) @ encode_item cfg x
       \<and> length (m_buffer w') = length (m_buffer w) + length (encode_item cfg x)
       \<and> length (m_buffer w') \<le> header cfg (m_buffer w')
       \<and> length (payload x) < 256 ^ len_size cfg"
proof (cases x)
  case (String_item s)
  with assms(6,7) have "length s < 2 ^ 63"
    and "out_message_lshift_string_view cfg s w = (Returned, w')"
    by simp_all
  from string_append_step [OF assms(1-5) this] String_item show ?thesis
    by simp
next
  case (Blob_item b)
  with assms(6,7) have "length b < 2 ^ 63"
    and "out_message_lshift_blob cfg b w = (Returned, w')"
    by simp_all
  from blob_append_step [OF assms(1-5) this] Blob_item show ?thesis
    by simp
qed

lemma append_all_steps:
  assumes "len_size cfg < 8" and "2 * max_size cfg < 256 ^ len_size cfg"
    and "m_ok w" and "len_size cfg \<le> length (m_buffer w)"
    and "length (m_buffer w) \<le> header cfg (m_buffer w)"
    and "list_all item_wf xs"
    and "append_all cfg xs w = (Returned, w')"
  shows "m_ok w'
       \<and> drop (len_size cfg) (m_buffer w')
           = drop (len_size cfg) (m_buffer w) @ concat (map (encode_item cfg) xs)
       \<and> length (m_buffer w')
           = length (m_buffer w) + length (concat (map (encode_item cfg) xs))
       \<and> length (m_buffer w') \<le> header cfg (m_buffer w')
       \<and> list_all (\<lambda>x. length (payload x) < 256 ^ len_size cfg) xs"
  using assms(3-7)
proof (induction xs arbitrary: w)
  case Nil
  then show ?case by simp
next
  case (Cons x xs)
  from Cons.prems(5) obtain w1 where first: "append_item cfg x w = (Returned, w1)"
    and rest: "append_all cfg xs w1 = (Returned, w')"
    by (auto split: prod.splits outcome.splits)
  from Cons.prems(4) have wf: "item_wf x" "list_all item_wf xs"
    by simp_all
  note step = append_item_step [OF assms(1,2) Cons.prems(1-3) wf(1) first]
  from step Cons.prems(2) have inv: "m_ok w1" "len_size cfg \<le> length (m_buffer w1)"
    "length (m_buffer w1) \<le> header cfg (m_buffer w1)"
    by simp_all
  note ih = Cons.IH [OF inv wf(2) rest]
  from step ih show ?case
    by simp
qed

lemma extract_item_step:
  assumes "len_size cfg < 8" and "m_ok r" and "len_size cfg \<le> m_offset r"
    and "m_offset r \<le> length (m_buffer r)"
    and "drop (m_offset r) (m_buffer r) = encode_item cfg x @ rest"
    and "length (m_buffer r) \<le> header cfg (m_buffer r)"
    and "item_wf x" and "length (payload x) < 256 ^ len_size cfg"
  shows "extract_item cfg (request x v) r
         = (Returned, r\<lparr>m_offset := m_offset r + length (encode_item cfg x)\<rparr>, read_back x v)"
proof (cases x)
  case (String_item s)
  with assms(5,7) have "drop (m_offset r) (m_buffer r) = encode_item cfg (String_item s) @ rest"
    and "0 \<notin> set s"
    by simp_all
  from string_extract_step [OF assms(1-3) this(1) assms(6) this(2), of v] String_item
  show ?thesis
    by simp
next
  case (Blob_item b)
  with assms(5,8) have "drop (m_offset r) (m_buffer r) = encode_item cfg (Blob_item b) @ rest"
    and "length b < 256 ^ len_size cfg"
    by simp_all
  from blob_extract_step [OF assms(1-3) this(1) assms(6) this(2) assms(4), of v] Blob_item
  show ?thesis
    by simp
qed

lemma extract_all_steps:
  assumes "len_size cfg < 8"
  shows "m_ok r \<Longrightarrow> len_size cfg \<le> m_offset r \<Longrightarrow> m_offset r \<le> length (m_buffer r)
    \<Longrightarrow> drop (m_offset r) (m_buffer r) = concat (map (encode_item cfg) xs) @ rest
    \<Longrightarrow> length (m_buffer r) \<le> header cfg (m_buffer r)
    \<Longrightarrow> list_all item_wf xs
    \<Longrightarrow> list_all (\<lambda>x. length (payload x) < 256 ^ len_size cfg) xs
    \<Longrightarrow> length vs = length xs
    \<Longrightarrow> extract_all cfg (map2 request xs vs) r
         = (Returned,
            r\<lparr>m_offset := m_offset r + length (concat (map (encode_item cfg) xs))\<rparr>,
            map2 read_back xs vs)"
proof (induction xs arbitrary: r vs)
  case Nil
  then show ?case by simp
next
  case (Cons x xs)
  from Cons.prems(8) obtain v vs' where vs: "vs = v # vs'" and len: "length vs' = length xs"
    by (cases vs) auto
  let ?r1 = "r\<lparr>m_offset := m_offset r + length (encode_item cfg x)\<rparr>"
  from Cons.prems(4)
  have here: "drop (m_offset r) (m_buffer r)
      = encode_item cfg x @ (concat (map (encode_item cfg) xs) @ rest)"
    by simp
  from Cons.prems(6,7) have wf: "item_wf x" "length (payload x) < 256 ^ len_size cfg"
    "list_all item_wf xs" "list_all (\<lambda>x. length (payload x) < 256 ^ len_size cfg) xs"
    by simp_all
  have first: "extract_item cfg (request x v) r = (Returned, ?r1, read_back x v)"
    using assms Cons.prems(1-3) here Cons.prems(5) wf(1,2) by (rule extract_item_step)
  have "length (drop (m_offset r) (m_buffer r))
      = length (encode_item cfg x @ (concat (map (encode_item cfg) xs) @ rest))"
    using here by simp
  with Cons.prems(3) have inside: "m_offset ?r1 \<le> length (m_buffer ?r1)"
    by simp
  have "drop (length (encode_item cfg x)) (drop (m_offset r) (m_buffer r))
      = concat (map (encode_item cfg) xs) @ rest"
    by (simp add: here)
  then have next_field: "drop (m_offset ?r1) (m_buffer ?r1)
      = concat (map (encode_item cfg) xs) @ rest"
    by (simp add: add.commute)
  have "extract_all cfg (map2 request xs vs') ?r1
      = (Returned,
         ?r1\<lparr>m_offset := m_offset ?r1 + length (concat (map (encode_item cfg) xs))\<rparr>,
         map2 read_back xs vs')"
    using Cons.prems(1,2,5) inside next_field wf(3,4) len
    by (intro Cons.IH) simp_all
  with first vs show ?case
    by (simp add: add.assoc)
qed


lemma read_back_fresh: "map2 read_back xs (replicate (length xs) []) = xs"
proof (induction xs)
  case Nil
  show ?case by simp
next
  case (Cons x xs)
  then show ?case by (cases x) simp_all
qed

text \<open>
  Where the header cannot wrap, the values are read back. Take a writer whose flag is true
  and whose header is at least the number of bytes in its buffer, a length type narrower
  than \<open>size_t\<close> and a capacity below half its range. If a sequence of strings
  without zero byte and of blobs is appended and every append returns, then a reader over
  the resulting buffer, its cursor on the first appended field, extracts the values in
  the order of the appends, every extraction returns, the flag stays true and the cursor
  ends at the end of the buffer. A string and a blob that is not empty replace what the
  caller's variable held; a blob of length 0 leaves the caller's vector as it was. Into
  variables that are empty when they are passed in, exactly the written values are read.
\<close>

theorem written_values_are_read_back:
  assumes "len_size cfg < 8" and "2 * max_size cfg < 256 ^ len_size cfg"
    and "m_ok w" and "len_size cfg \<le> length (m_buffer w)"
    and "length (m_buffer w) \<le> header cfg (m_buffer w)"
    and "list_all item_wf xs"
    and "append_all cfg xs w = (Returned, w')"
    and "length vs = length xs"
  shows "extract_all cfg (map2 request xs vs)
           \<lparr>m_ok = True, m_buffer = m_buffer w', m_offset = length (m_buffer w)\<rparr>
         = (Returned,
            \<lparr>m_ok = True, m_buffer = m_buffer w', m_offset = length (m_buffer w')\<rparr>,
            map2 read_back xs vs)
         \<and> map2 read_back xs (replicate (length xs) []) = xs"
proof -
  let ?r = "\<lparr>m_ok = True, m_buffer = m_buffer w', m_offset = length (m_buffer w)\<rparr>"
  let ?enc = "concat (map (encode_item cfg) xs)"
  note wr = append_all_steps [OF assms(1-7)]
  from wr have tail: "drop (len_size cfg) (m_buffer w') = drop (len_size cfg) (m_buffer w) @ ?enc"
    and len: "length (m_buffer w') = length (m_buffer w) + length ?enc"
    and hdr: "length (m_buffer w') \<le> header cfg (m_buffer w')"
    and fits: "list_all (\<lambda>x. length (payload x) < 256 ^ len_size cfg) xs"
    by blast+
  have "drop (length (m_buffer w) - len_size cfg) (drop (len_size cfg) (m_buffer w')) = ?enc"
    by (simp add: tail)
  with assms(4) have fields: "drop (m_offset ?r) (m_buffer ?r) = ?enc @ []"
    by simp
  have ok: "m_ok ?r"
    by simp
  have behind: "len_size cfg \<le> m_offset ?r"
    using assms(4) by simp
  have inside: "m_offset ?r \<le> length (m_buffer ?r)"
    using len by simp
  have declared: "length (m_buffer ?r) \<le> header cfg (m_buffer ?r)"
    using hdr by simp
  have "extract_all cfg (map2 request xs vs) ?r
      = (Returned, ?r\<lparr>m_offset := m_offset ?r + length ?enc\<rparr>, map2 read_back xs vs)"
    using assms(1) ok behind inside fields declared assms(6) fits assms(8)
    by (rule extract_all_steps)
  then show ?thesis
    by (simp add: len read_back_fresh)
qed

theorem written_values_are_read_back_witness:
  "append_all \<lparr>use_tags = True, len_size = 4, max_size = 64\<rparr>
       [String_item [104, 105], Blob_item [222, 173], Blob_item []]
       \<lparr>m_ok = True, m_buffer = [4, 0, 0, 0]\<rparr>
     = (Returned,
        \<lparr>m_ok = True,
         m_buffer = [55, 0, 0, 0, 5, 104, 105, 0, 8, 2, 0, 0, 0, 222, 173, 8, 0, 0, 0, 0]\<rparr>)
   \<and> extract_all \<lparr>use_tags = True, len_size = 4, max_size = 64\<rparr>
       [String_item [7], Blob_item [7], Blob_item [7]]
       \<lparr>m_ok = True,
        m_buffer = [55, 0, 0, 0, 5, 104, 105, 0, 8, 2, 0, 0, 0, 222, 173, 8, 0, 0, 0, 0],
        m_offset = 4\<rparr>
     = (Returned,
        \<lparr>m_ok = True,
         m_buffer = [55, 0, 0, 0, 5, 104, 105, 0, 8, 2, 0, 0, 0, 222, 173, 8, 0, 0, 0, 0],
         m_offset = 20\<rparr>,
        [String_item [104, 105], Blob_item [222, 173], Blob_item [7]])"
proof -
  let ?cfg = "\<lparr>use_tags = True, len_size = 4, max_size = 64\<rparr>"
  let ?w = "\<lparr>m_ok = True, m_buffer = [4, 0, 0, 0]\<rparr>"
  let ?xs = "[String_item [104, 105], Blob_item [222, 173], Blob_item []]"
  let ?buf = "[55, 0, 0, 0, 5, 104, 105, 0, 8, 2, 0, 0, 0, 222, 173, 8, 0, 0, 0, 0] :: byte list"
  have run: "append_all ?cfg ?xs ?w = (Returned, \<lparr>m_ok = True, m_buffer = ?buf\<rparr>)"
    by (simp add: writer_eval)
  have cfg: "len_size ?cfg < 8" "2 * max_size ?cfg < 256 ^ len_size ?cfg"
    by simp_all
  have w: "m_ok ?w" "len_size ?cfg \<le> length (m_buffer ?w)"
    "length (m_buffer ?w) \<le> header ?cfg (m_buffer ?w)"
    by (simp_all add: header_def)
  have xs: "list_all item_wf ?xs"
    by simp
  have vs: "length [[7], [7], [7 :: byte]] = length ?xs"
    by simp
  have sel: "m_buffer ?w = [4, 0, 0, 0]" "m_buffer \<lparr>m_ok = True, m_buffer = ?buf\<rparr> = ?buf"
    by simp_all
  have len: "length [4, 0, 0, 0 :: byte] = 4" "length ?buf = 20"
    by simp_all
  have req: "map2 request ?xs [[7], [7], [7]] = [String_item [7], Blob_item [7], Blob_item [7]]"
    by simp
  have got: "map2 read_back ?xs [[7], [7], [7]]
      = [String_item [104, 105], Blob_item [222, 173], Blob_item [7]]"
    by simp
  note written_values_are_read_back [OF cfg w xs run vs, THEN conjunct1,
      unfolded sel len req got]
  with run show ?thesis
    by (rule conjI)
qed


text \<open>
  C2. Values written within capacity should be read back as written, the reader's flag
  staying true. Without tags, with a 1-byte length type and capacity 255, take a writer
  whose buffer is the header byte alone, holding 1. A string of 120 bytes is appended: the
  required size is 122, the header becomes 1 + 122 = 123, and a reader over this buffer
  reads the string back. A string of 10 bytes is appended next: the required size 134 is
  within capacity, and the header becomes 123 + 134 = 257, which is 1 in one byte, for a
  buffer of 133 bytes. The reader over this buffer throws
  \<open>message_too_short_exception\<close> at the first extraction: it needs 2 bytes and the
  header declares 1.
\<close>

theorem round_trip_lost_when_header_wraps:
  "append_all \<lparr>use_tags = False, len_size = 1, max_size = 255\<rparr>
       [String_item (replicate 120 97)] \<lparr>m_ok = True, m_buffer = [1]\<rparr>
     = (Returned, \<lparr>m_ok = True, m_buffer = 123 # replicate 120 97 @ [0]\<rparr>)
   \<and> extract_all \<lparr>use_tags = False, len_size = 1, max_size = 255\<rparr> [String_item []]
       \<lparr>m_ok = True, m_buffer = 123 # replicate 120 97 @ [0], m_offset = 1\<rparr>
     = (Returned,
        \<lparr>m_ok = True, m_buffer = 123 # replicate 120 97 @ [0], m_offset = 122\<rparr>,
        [String_item (replicate 120 97)])
   \<and> append_all \<lparr>use_tags = False, len_size = 1, max_size = 255\<rparr>
       [String_item (replicate 120 97), String_item (replicate 10 98)]
       \<lparr>m_ok = True, m_buffer = [1]\<rparr>
     = (Returned,
        \<lparr>m_ok = True, m_buffer = 1 # replicate 120 97 @ 0 # replicate 10 98 @ [0]\<rparr>)
   \<and> length (1 # replicate 120 (97 :: byte) @ 0 # replicate 10 98 @ [0]) = 133
   \<and> extract_all \<lparr>use_tags = False, len_size = 1, max_size = 255\<rparr>
       [String_item [], String_item []]
       \<lparr>m_ok = True, m_buffer = 1 # replicate 120 97 @ 0 # replicate 10 98 @ [0],
        m_offset = 1\<rparr>
     = (Thrown (message_too_short_exception 2 1),
        \<lparr>m_ok = False, m_buffer = 1 # replicate 120 97 @ 0 # replicate 10 98 @ [0],
         m_offset = 1\<rparr>,
        [String_item []])"
proof -
  have "find_zero (take 121 (replicate 120 (97 :: byte) @ 0 # []))
      = Some (length (replicate 120 (97 :: byte)))"
    by (rule find_zero_terminated) simp_all
  then have scan: "find_zero (replicate 120 (97 :: byte) @ [0]) = Some 120"
    by simp
  show ?thesis
    by (simp add: writer_eval reader_eval scan Let_def)
qed

end
